theory Spec2Isabelle
  imports Main "HOL-Library.Word" "HOL-Library.Multiset"
begin

section \<open>JavaScript strings\<close>

text \<open>
  A JavaScript string is a sequence of UTF-16 code units. The functions below are the
  parts of \<^verbatim>\<open>String.prototype\<close> and \<^verbatim>\<open>Array.prototype\<close> that
  \<^verbatim>\<open>src/VarManager.tsx\<close> calls.
\<close>

type_synonym code_unit = "16 word"
type_synonym jsstring = "code_unit list"

definition js :: "string \<Rightarrow> jsstring" where
  \<comment> \<open>a string literal of the source\<close>
  "js s = map of_char s"

definition isWhiteSpace :: "code_unit \<Rightarrow> bool" where
  \<comment> \<open>WhiteSpace and LineTerminator of ECMAScript, the code units \<^verbatim>\<open>trim\<close> removes\<close>
  "isWhiteSpace c \<longleftrightarrow>
     c = 0x9 \<or> c = 0xA \<or> c = 0xB \<or> c = 0xC \<or> c = 0xD \<or> c = 0x20 \<or> c = 0xA0 \<or>
     c = 0x1680 \<or> (0x2000 \<le> c \<and> c \<le> 0x200A) \<or> c = 0x2028 \<or> c = 0x2029 \<or>
     c = 0x202F \<or> c = 0x205F \<or> c = 0x3000 \<or> c = 0xFEFF"

definition trim :: "jsstring \<Rightarrow> jsstring" where
  "trim s = rev (dropWhile isWhiteSpace (rev (dropWhile isWhiteSpace s)))"

definition startsWith :: "jsstring \<Rightarrow> jsstring \<Rightarrow> bool" where
  "startsWith s p \<longleftrightarrow> take (length p) s = p"

fun indexOf :: "jsstring \<Rightarrow> code_unit \<Rightarrow> int" where
  "indexOf [] c = -1"
| "indexOf (x # xs) c =
     (if x = c then 0 else (let i = indexOf xs c in if i = -1 then -1 else i + 1))"

definition substring :: "jsstring \<Rightarrow> int \<Rightarrow> int \<Rightarrow> jsstring" where
  \<comment> \<open>\<^verbatim>\<open>s.substring(a, b)\<close>: both ends clamped to the string, swapped when out of order\<close>
  "substring s a b =
     (let len = int (length s);
          intStart = min (max a 0) len;
          intEnd = min (max b 0) len;
          from = min intStart intEnd;
          to = max intStart intEnd
      in take (nat (to - from)) (drop (nat from) s))"

definition substringFrom :: "jsstring \<Rightarrow> int \<Rightarrow> jsstring" where
  \<comment> \<open>\<^verbatim>\<open>s.substring(a)\<close>: the end defaults to the length\<close>
  "substringFrom s a = substring s a (int (length s))"

fun split_newline :: "jsstring \<Rightarrow> jsstring list" where
  \<comment> \<open>\<^verbatim>\<open>s.split('\n')\<close>: never empty, the empty string gives one empty line\<close>
  "split_newline [] = [] # []"
| "split_newline (c # cs) =
     (if c = 0xA then [] # split_newline cs
      else (case split_newline cs of [] \<Rightarrow> [c] # [] | l # ls \<Rightarrow> (c # l) # ls))"

fun join :: "jsstring list \<Rightarrow> jsstring \<Rightarrow> jsstring" where
  \<comment> \<open>\<^verbatim>\<open>xs.join(sep)\<close>\<close>
  "join [] sep = []"
| "join [x] sep = x"
| "join (x # y # ys) sep = x @ sep @ join (y # ys) sep"

fun numberToString :: "nat \<Rightarrow> jsstring" where
  \<comment> \<open>a non-negative integer inside a template literal: its decimal digits\<close>
  "numberToString n =
     (if n < 10 then [of_nat (48 + n)]
      else numberToString (n div 10) @ [of_nat (48 + n mod 10)])"

declare numberToString.simps [simp del]

definition keyChar :: "code_unit \<Rightarrow> bool" where
  \<comment> \<open>the character class \<^verbatim>\<open>[A-Za-z0-9_]\<close>\<close>
  "keyChar c \<longleftrightarrow>
     (0x41 \<le> c \<and> c \<le> 0x5A) \<or> (0x61 \<le> c \<and> c \<le> 0x7A) \<or> (0x30 \<le> c \<and> c \<le> 0x39) \<or> c = 0x5F"

definition KEY_REGEX_test :: "jsstring \<Rightarrow> bool" where
  \<comment> \<open>\<^verbatim>\<open>/^[A-Za-z0-9_]+$/.test(v)\<close>; without the m flag \<^verbatim>\<open>$\<close> is the end of the input\<close>
  "KEY_REGEX_test v \<longleftrightarrow> v \<noteq> [] \<and> list_all keyChar v"


section \<open>Plain objects used as string-keyed records\<close>

text \<open>
  An object is kept as the list of its own properties in creation order.
  \<^verbatim>\<open>Object.entries\<close> enumerates the array-index keys first, in ascending numeric
  order, and then the other string keys in creation order.
\<close>

type_synonym 'v jsobject = "(jsstring \<times> 'v) list"

definition isDigit :: "code_unit \<Rightarrow> bool" where
  "isDigit c \<longleftrightarrow> 0x30 \<le> c \<and> c \<le> 0x39"

definition digitsValue :: "jsstring \<Rightarrow> nat" where
  "digitsValue s = foldl (\<lambda>n c. 10 * n + (unat c - 48)) 0 s"

definition isArrayIndex :: "jsstring \<Rightarrow> bool" where
  \<comment> \<open>a canonical numeric string whose value is at most \<open>2^32 - 2\<close>\<close>
  "isArrayIndex k \<longleftrightarrow>
     k \<noteq> [] \<and> list_all isDigit k \<and> (k = [0x30] \<or> hd k \<noteq> 0x30) \<and> digitsValue k < 2 ^ 32 - 1"

definition Object_entries :: "'v jsobject \<Rightarrow> (jsstring \<times> 'v) list" where
  "Object_entries obj =
     sort_key (\<lambda>(k, v). digitsValue k) (filter (\<lambda>(k, v). isArrayIndex k) obj)
     @ filter (\<lambda>(k, v). \<not> isArrayIndex k) obj"

fun defineProperty :: "'v jsobject \<Rightarrow> jsstring \<Rightarrow> 'v \<Rightarrow> 'v jsobject" where
  \<comment> \<open>an existing property keeps its place and takes the new value, a new one goes last\<close>
  "defineProperty [] k v = [(k, v)]"
| "defineProperty ((k', v') # obj) k v =
     (if k' = k then (k, v) # obj else (k', v') # defineProperty obj k v)"

definition spreadWith :: "'v jsobject \<Rightarrow> jsstring \<Rightarrow> 'v \<Rightarrow> 'v jsobject" where
  \<comment> \<open>\<^verbatim>\<open>{ ...acc, [k]: v }\<close>: a new object that copies the own properties of acc in
      enumeration order and then defines k\<close>
  "spreadWith acc k v = defineProperty (Object_entries acc) k v"


section \<open>The editor state\<close>

record EnvironmentVariable =
  var_id :: jsstring
  var_key :: jsstring
  var_value :: jsstring

text \<open>
  The five \<^verbatim>\<open>useState\<close> cells of \<^verbatim>\<open>VarManager\<close>. \<^verbatim>\<open>null\<close> is \<open>None\<close>.
  \<^verbatim>\<open>uuidv4()\<close> is an external generator: it is a parameter \<open>uuid :: nat \<Rightarrow> jsstring\<close>
  (the n-th identifier it hands out), and \<open>uuidCount\<close> counts the calls made so far.
  \<open>rowErrors\<close> is only read and written at row ids, which are UUIDs and never the name of
  a property inherited from \<^verbatim>\<open>Object.prototype\<close>, so a lookup is a lookup of an own property.
\<close>

record EditorState =
  rawText :: jsstring
  variables :: "EnvironmentVariable list"
  error :: "jsstring option"
  status :: "jsstring option"
  rowErrors :: "jsstring \<rightharpoonup> jsstring"
  uuidCount :: nat

definition INITIAL_ROW_COUNT :: nat where
  "INITIAL_ROW_COUNT = 20"

definition createEmptyVariable :: "jsstring \<Rightarrow> EnvironmentVariable" where
  "createEmptyVariable newId = \<lparr>var_id = newId, var_key = [], var_value = []\<rparr>"

definition emptyRows :: "(nat \<Rightarrow> jsstring) \<Rightarrow> nat \<Rightarrow> EnvironmentVariable list" where
  \<comment> \<open>\<^verbatim>\<open>Array.from({ length: INITIAL_ROW_COUNT }, createEmptyVariable)\<close>,
      when n identifiers have been generated before\<close>
  "emptyRows uuid n = map (\<lambda>i. createEmptyVariable (uuid (n + i))) [0..<INITIAL_ROW_COUNT]"

definition initialState :: "(nat \<Rightarrow> jsstring) \<Rightarrow> EditorState" where
  "initialState uuid =
     \<lparr>rawText = [], variables = emptyRows uuid 0, error = None, status = None,
      rowErrors = Map.empty, uuidCount = INITIAL_ROW_COUNT\<rparr>"

definition handleTextChange :: "jsstring \<Rightarrow> EditorState \<Rightarrow> EditorState" where
  "handleTextChange text s = s\<lparr>rawText := text\<rparr>"


section \<open>parseAndPopulate\<close>

record ParsedItem =
  item_key :: jsstring
  item_value :: jsstring
  item_line :: nat

definition noEqualsWarning :: "nat \<Rightarrow> jsstring \<Rightarrow> jsstring" where
  \<open>noEqualsWarning lineNum trimmedLine =
     js ''Warning: Line '' @ numberToString lineNum @ js '' does not contain '='. Input: "''
     @ trimmedLine @ js ''". Skipping.''\<close>

definition emptyKeyWarning :: "nat \<Rightarrow> jsstring \<Rightarrow> jsstring" where
  \<open>emptyKeyWarning lineNum trimmedLine =
     js ''Warning: Empty key on line '' @ numberToString lineNum @ js ''. Input: "''
     @ trimmedLine @ js ''". Skipping.''\<close>

definition lineCallback ::
  "jsstring \<Rightarrow> nat \<Rightarrow> ParsedItem list \<times> jsstring list \<Rightarrow> ParsedItem list \<times> jsstring list" where
  \<comment> \<open>the body of \<^verbatim>\<open>lines.forEach((line, index) => ...)\<close>, on the two arrays it pushes to\<close>
  "lineCallback line index acc =
     (case acc of (parsedItems, parseWarningMessages) \<Rightarrow>
       let lineNum = index + 1;
           trimmedLine = trim line
       in if trimmedLine = [] \<or> startsWith trimmedLine (js ''#'') then acc
          else
            let eqIndex = indexOf trimmedLine 0x3D
            in if eqIndex = -1
               then (parsedItems, parseWarningMessages @ [noEqualsWarning lineNum trimmedLine])
               else
                 let k = trim (substring trimmedLine 0 eqIndex);
                     v = trim (substringFrom trimmedLine (eqIndex + 1))
                 in if k \<noteq> []
                    then (parsedItems @ [\<lparr>item_key = k, item_value = v, item_line = lineNum\<rparr>],
                          parseWarningMessages)
                    else (parsedItems,
                          parseWarningMessages @ [emptyKeyWarning (index + 1) trimmedLine]))"

fun forEachLine ::
  "jsstring list \<Rightarrow> nat \<Rightarrow> ParsedItem list \<times> jsstring list \<Rightarrow> ParsedItem list \<times> jsstring list" where
  \<comment> \<open>\<^verbatim>\<open>forEach\<close> over the lines from position index on\<close>
  "forEachLine [] index acc = acc"
| "forEachLine (line # rest) index acc = forEachLine rest (index + 1) (lineCallback line index acc)"

definition Array_isArray_number :: "nat \<Rightarrow> bool" where
  \<comment> \<open>\<^verbatim>\<open>Array.isArray\<close> of a value of type number\<close>
  "Array_isArray_number n \<longleftrightarrow> False"

definition duplicateWarnings :: "nat jsobject \<Rightarrow> jsstring list" where
  \<comment> \<open>the loop under "Detect duplicates" over \<^verbatim>\<open>Object.entries(keyCounts)\<close>, for
      \<^verbatim>\<open>keyCounts: Record<string, number>\<close>. The guard asks for a count that is an array,
      so the push is never made; the digits after "on lines" stand for
      \<^verbatim>\<open>keyCounts[k].join(', ')\<close>, which a number does not have.\<close>
  \<open>duplicateWarnings keyCounts =
     map (\<lambda>(k, occ). js ''Duplicate key "'' @ k @ js ''" on lines '' @ numberToString occ)
       (filter (\<lambda>(k, occ). occ > 1 \<and> Array_isArray_number occ) (Object_entries keyCounts))\<close>

definition parsedLines :: "jsstring \<Rightarrow> ParsedItem list \<times> jsstring list" where
  \<comment> \<open>parsedItems and parseWarningMessages after the forEach\<close>
  "parsedLines raw = forEachLine (split_newline raw) 0 ([], [])"

definition parseWarnings :: "jsstring \<Rightarrow> jsstring list" where
  \<comment> \<open>parseWarningMessages where it is tested; keyCounts is still the empty object\<close>
  "parseWarnings raw = snd (parsedLines raw) @ duplicateWarnings []"

definition deduped :: "ParsedItem list \<Rightarrow> jsstring jsobject" where
  \<comment> \<open>\<^verbatim>\<open>parsedItems.reduce((acc, { key, value }) => ({ ...acc, [key]: value }), {})\<close>\<close>
  "deduped parsedItems = foldl (\<lambda>acc item. spreadWith acc (item_key item) (item_value item)) [] parsedItems"

definition buildVars ::
  "(nat \<Rightarrow> jsstring) \<Rightarrow> nat \<Rightarrow> (jsstring \<times> jsstring) list \<Rightarrow> EnvironmentVariable list" where
  \<comment> \<open>the for loop that fills newVars; the i-th pass makes the i-th call of uuidv4\<close>
  "buildVars uuid n entries =
     (let rowCount = max INITIAL_ROW_COUNT (length entries)
      in map (\<lambda>i. if i < length entries
                  then (case entries ! i of (k, v) \<Rightarrow>
                          \<lparr>var_id = uuid (n + i), var_key = k, var_value = v\<rparr>)
                  else createEmptyVariable (uuid (n + i)))
           [0..<rowCount])"

definition parseAndPopulate :: "(nat \<Rightarrow> jsstring) \<Rightarrow> EditorState \<Rightarrow> EditorState" where
  "parseAndPopulate uuid s =
     (let s1 = s\<lparr>error := None, status := None\<rparr>;
          parsedItems = fst (parsedLines (rawText s));
          parseWarningMessages = parseWarnings (rawText s);
          s2 = (if length parseWarningMessages > 0
                then s1\<lparr>error := Some (join parseWarningMessages (js [CHR 0x0A]))\<rparr>
                else s1\<lparr>error := None, status := Some (js ''Parsed successfully!'')\<rparr>);
          entries = Object_entries (deduped parsedItems);
          newVars = buildVars uuid (uuidCount s) entries
      in s2\<lparr>variables := newVars, uuidCount := uuidCount s + length newVars\<rparr>)"


section \<open>Row editing\<close>

datatype Field = KeyField | ValueField

definition setField :: "Field \<Rightarrow> jsstring \<Rightarrow> EnvironmentVariable \<Rightarrow> EnvironmentVariable" where
  \<comment> \<open>\<^verbatim>\<open>{ ...row, [field]: v }\<close>\<close>
  "setField field v row = (case field of KeyField \<Rightarrow> row\<lparr>var_key := v\<rparr> | ValueField \<Rightarrow> row\<lparr>var_value := v\<rparr>)"

definition handleVariableChange :: "jsstring \<Rightarrow> Field \<Rightarrow> jsstring \<Rightarrow> EditorState \<Rightarrow> EditorState" where
  "handleVariableChange rid field v s =
     (let s1 = s\<lparr>variables := map (\<lambda>row. if var_id row = rid then setField field v row else row) (variables s)\<rparr>
      in if field = KeyField
         then if trim v = []
              then s1\<lparr>rowErrors := (rowErrors s1)(rid \<mapsto> js ''Key is required.'')\<rparr>
              else if \<not> KEY_REGEX_test v
              then s1\<lparr>rowErrors := (rowErrors s1)(rid \<mapsto> js ''Only letters, digits, and underscore allowed.'')\<rparr>
              else s1\<lparr>rowErrors := (rowErrors s1)(rid \<mapsto> js ''Error in '' @ rid)\<rparr>
         else s1)"

definition addVariableRow :: "(nat \<Rightarrow> jsstring) \<Rightarrow> EditorState \<Rightarrow> EditorState" where
  "addVariableRow uuid s =
     s\<lparr>variables := variables s @ [createEmptyVariable (uuid (uuidCount s))],
       uuidCount := uuidCount s + 1\<rparr>"

definition deleteVariableRow :: "jsstring \<Rightarrow> EditorState \<Rightarrow> EditorState" where
  "deleteVariableRow rid s = s\<lparr>variables := filter (\<lambda>r. var_id r \<noteq> rid) (variables s)\<rparr>"

definition clearAll :: "(nat \<Rightarrow> jsstring) \<Rightarrow> EditorState \<Rightarrow> EditorState" where
  "clearAll uuid s =
     s\<lparr>variables := emptyRows uuid (uuidCount s), rowErrors := Map.empty, error := None,
       rawText := [], status := None, uuidCount := uuidCount s + INITIAL_ROW_COUNT\<rparr>"

definition clearText :: "EditorState \<Rightarrow> EditorState" where
  "clearText s = s\<lparr>rawText := []\<rparr>"

definition truthy :: "jsstring option \<Rightarrow> bool" where
  \<comment> \<open>a string or undefined used as a condition: undefined and the empty string are falsy\<close>
  "truthy x = (case x of None \<Rightarrow> False | Some str \<Rightarrow> str \<noteq> [])"

definition getOutputText :: "EditorState \<Rightarrow> jsstring" where
  \<open>getOutputText s =
     join (map (\<lambda>r. var_key r @ js ''='' @ var_value r)
             (filter (\<lambda>r. trim (var_key r) \<noteq> [] \<and> \<not> truthy (rowErrors s (var_id r))) (variables s)))
          (js [CHR 0x0A])\<close>

definition clearStatus :: "EditorState \<Rightarrow> EditorState" where
  \<comment> \<open>the timer callback of the first effect\<close>
  "clearStatus s = s\<lparr>status := None\<rparr>"

definition rawTextEffect :: "(nat \<Rightarrow> jsstring) \<Rightarrow> EditorState \<Rightarrow> EditorState" where
  \<comment> \<open>the second effect, run after a render: re-parse unless the raw text is empty\<close>
  "rawTextEffect uuid s = (if rawText s \<noteq> [] then parseAndPopulate uuid s else s)"

text \<open>
  The states the component can be in: the mounted state, and whatever an event handler,
  the status timer or the re-parse effect makes of a state it can be in.
\<close>

inductive reachable :: "(nat \<Rightarrow> jsstring) \<Rightarrow> EditorState \<Rightarrow> bool" for uuid :: "nat \<Rightarrow> jsstring" where
  mounted: "reachable uuid (initialState uuid)"
| textChange: "reachable uuid s \<Longrightarrow> reachable uuid (handleTextChange text s)"
| variableChange: "reachable uuid s \<Longrightarrow> reachable uuid (handleVariableChange rid field v s)"
| addRow: "reachable uuid s \<Longrightarrow> reachable uuid (addVariableRow uuid s)"
| deleteRow: "reachable uuid s \<Longrightarrow> reachable uuid (deleteVariableRow rid s)"
| clearedAll: "reachable uuid s \<Longrightarrow> reachable uuid (clearAll uuid s)"
| clearedText: "reachable uuid s \<Longrightarrow> reachable uuid (clearText s)"
| statusTimer: "reachable uuid s \<Longrightarrow> reachable uuid (clearStatus s)"
| reparse: "reachable uuid s \<Longrightarrow> reachable uuid (rawTextEffect uuid s)"


section \<open>Auxiliary definitions\<close>

text \<open>
  Names for parts of the functions above that the proofs talk about: the two halves of
  \<^verbatim>\<open>trim\<close>, what one pass of the line loop adds to each array, the pair a row
  or a parsed item carries, the two parts of the row list built by the for loop, and the
  two invariants of the reachable states.
\<close>

definition trimStart :: "jsstring \<Rightarrow> jsstring" where
  "trimStart s = dropWhile isWhiteSpace s"

definition trimEnd :: "jsstring \<Rightarrow> jsstring" where
  "trimEnd s = rev (dropWhile isWhiteSpace (rev s))"

definition lineItems :: "jsstring \<Rightarrow> nat \<Rightarrow> ParsedItem list" where
  "lineItems line index = fst (lineCallback line index ([], []))"

definition lineWarnings :: "jsstring \<Rightarrow> nat \<Rightarrow> jsstring list" where
  "lineWarnings line index = snd (lineCallback line index ([], []))"

definition itemPair :: "ParsedItem \<Rightarrow> jsstring \<times> jsstring" where
  "itemPair item = (item_key item, item_value item)"

definition rowPair :: "EnvironmentVariable \<Rightarrow> jsstring \<times> jsstring" where
  "rowPair r = (var_key r, var_value r)"

definition entryRows ::
  "(nat \<Rightarrow> jsstring) \<Rightarrow> nat \<Rightarrow> (jsstring \<times> jsstring) list \<Rightarrow> EnvironmentVariable list" where
  "entryRows uuid n entries =
     map (\<lambda>i. \<lparr>var_id = uuid (n + i), var_key = fst (entries ! i), var_value = snd (entries ! i)\<rparr>)
       [0..<length entries]"

definition paddingRows :: "(nat \<Rightarrow> jsstring) \<Rightarrow> nat \<Rightarrow> nat \<Rightarrow> EnvironmentVariable list" where
  "paddingRows uuid n m =
     map (\<lambda>i. createEmptyVariable (uuid (n + i))) [m..<max INITIAL_ROW_COUNT m]"

definition errorsNonEmpty :: "EditorState \<Rightarrow> bool" where
  "errorsNonEmpty s \<longleftrightarrow> (\<forall>rid msg. rowErrors s rid = Some msg \<longrightarrow> msg \<noteq> [])"

definition idsIssued :: "(nat \<Rightarrow> jsstring) \<Rightarrow> EditorState \<Rightarrow> bool" where
  "idsIssued uuid s \<longleftrightarrow> (\<forall>r \<in> set (variables s). \<exists>k < uuidCount s. var_id r = uuid k)"

section \<open>Sample inputs\<close>

text \<open>
  A generator that never repeats an identifier, two pasted texts (one with a line
  without \<^verbatim>\<open>=\<close>, an empty key, array-index keys and a key defined twice; one clean),
  and the states after pasting them.
\<close>

definition sampleUuid :: "nat \<Rightarrow> jsstring" where
  "sampleUuid n = replicate (Suc n) 0x78"

definition rawSample :: jsstring where
  "rawSample =
     js ''onlykey'' @ [0x0A] @ js '' =v'' @ [0x0A] @ js ''10=b'' @ [0x0A] @ js ''A=1'' @ [0x0A]
     @ js ''FOO= bar baz '' @ [0x0A] @ js ''2=c'' @ [0x0A] @ js ''# note'' @ [0x0A] @ js ''A=2''
     @ [0x0A] @ js ''Z=9''"

definition rawClean :: jsstring where
  "rawClean = js ''FOO=bar'' @ [0x0A] @ js ''#comment'' @ [0x0A] @ js ''BAZ=qux'' @ [0x0A]"

definition sampleState :: EditorState where
  "sampleState =
     \<lparr>rawText = js ''A=1'',
      variables = [\<lparr>var_id = js ''r1'', var_key = js ''A'', var_value = js ''1''\<rparr>,
                   \<lparr>var_id = js ''r2'', var_key = [], var_value = []\<rparr>],
      error = None, status = None, rowErrors = Map.empty, uuidCount = 2\<rparr>"

definition pastedSample :: EditorState where
  "pastedSample = handleTextChange rawSample (initialState sampleUuid)"

definition pastedClean :: EditorState where
  "pastedClean = handleTextChange rawClean (initialState sampleUuid)"

section \<open>Strings\<close>

lemma js_Nil_iff [simp]: "js s = [] \<longleftrightarrow> s = []"
  by (simp add: js_def)

lemma KEY_REGEX_test_iff: "v \<noteq> [] \<Longrightarrow> KEY_REGEX_test v \<longleftrightarrow> (\<forall>c \<in> set v. keyChar c)"
  by (simp add: KEY_REGEX_test_def list_all_iff)

lemma trim_Nil [simp]: "trim [] = []"
  by (simp add: trim_def)

lemma trim_eq: "trim s = trimEnd (trimStart s)"
  by (simp add: trim_def trimStart_def trimEnd_def)

lemma trimEnd_Nil [simp]: "trimEnd [] = []"
  by (simp add: trimEnd_def)

lemma trimEnd_Cons:
  "trimEnd (x # xs) = (if trimEnd xs = [] \<and> isWhiteSpace x then [] else x # trimEnd xs)"
  by (auto simp add: trimEnd_def dropWhile_append dropWhile_eq_Nil_conv)

lemma trimEnd_append_keep:
  "ys \<noteq> [] \<Longrightarrow> \<not> isWhiteSpace (last ys) \<Longrightarrow> trimEnd (xs @ ys) = xs @ ys"
  by (cases ys rule: rev_cases) (simp_all add: trimEnd_def)

lemma trimEnd_append:
  "trimEnd ys \<noteq> [] \<Longrightarrow> trimEnd (xs @ ys) = xs @ trimEnd ys"
  by (induction xs) (simp_all add: trimEnd_Cons)

lemma trimEnd_all_ws: "(\<forall>c \<in> set ys. isWhiteSpace c) \<Longrightarrow> trimEnd (xs @ ys) = trimEnd xs"
  by (simp add: trimEnd_def dropWhile_append)

lemma trimEnd_eq_Nil: "trimEnd ys = [] \<longleftrightarrow> (\<forall>c \<in> set ys. isWhiteSpace c)"
  by (simp add: trimEnd_def dropWhile_eq_Nil_conv)

lemma trimEnd_idem: "trimEnd (trimEnd s) = trimEnd s"
  by (simp add: trimEnd_def)

lemma trimStart_trimEnd: "trimStart (trimEnd s) = trimEnd (trimStart s)"
  by (induction s) (auto simp add: trimEnd_Cons trimStart_def)

lemma trim_trimEnd: "trim (trimEnd s) = trim s"
  by (simp add: trim_eq trimStart_trimEnd trimEnd_idem)

lemma set_trim_subset: "set (trim s) \<subseteq> set s"
proof -
  have "set (trim s) \<subseteq> set (dropWhile isWhiteSpace s)"
    unfolding trim_def using set_dropWhileD[of _ isWhiteSpace "rev (dropWhile isWhiteSpace s)"]
    by auto
  also have "\<dots> \<subseteq> set s" using set_dropWhileD by fastforce
  finally show ?thesis .
qed

lemma in_set_dropWhile: "c \<in> set xs \<Longrightarrow> \<not> P c \<Longrightarrow> c \<in> set (dropWhile P xs)"
  by (induction xs) auto

lemma in_set_trim: "c \<in> set s \<Longrightarrow> \<not> isWhiteSpace c \<Longrightarrow> c \<in> set (trim s)"
  by (simp add: trim_def in_set_dropWhile)

lemma trim_no_ws_ends:
  "s \<noteq> [] \<Longrightarrow> \<not> isWhiteSpace (hd s) \<Longrightarrow> \<not> isWhiteSpace (last s) \<Longrightarrow> trim s = s"
proof -
  assume a: "s \<noteq> []" "\<not> isWhiteSpace (hd s)" "\<not> isWhiteSpace (last s)"
  then have "trimStart s = s" by (cases s) (simp_all add: trimStart_def)
  moreover have "trimEnd s = s" using trimEnd_append_keep[of s "[]"] a by simp
  ultimately show ?thesis by (simp add: trim_eq)
qed

lemma keyChar_range: "keyChar c \<Longrightarrow> 48 \<le> unat c \<and> unat c \<le> 122"
  unfolding keyChar_def word_le_nat_alt by auto

lemma isWhiteSpace_range: "isWhiteSpace c \<Longrightarrow> unat c \<le> 32 \<or> 160 \<le> unat c"
  unfolding isWhiteSpace_def word_le_nat_alt by auto

lemma keyChar_not_ws: "keyChar c \<Longrightarrow> \<not> isWhiteSpace c"
  using keyChar_range[of c] isWhiteSpace_range[of c] by auto

lemma keyChar_not_eq: "keyChar c \<Longrightarrow> c \<noteq> 0x3D"
  unfolding keyChar_def by auto

lemma keyChar_not_hash: "keyChar c \<Longrightarrow> c \<noteq> 0x23"
  unfolding keyChar_def by auto

lemma eq_not_ws: "\<not> isWhiteSpace 0x3D"
  by (simp add: isWhiteSpace_def)

lemma indexOf_notin: "c \<notin> set s \<Longrightarrow> indexOf s c = -1"
  by (induction s) (auto simp add: Let_def)

lemma indexOf_in: "c \<in> set s \<Longrightarrow> indexOf s c = int (length (takeWhile (\<lambda>x. x \<noteq> c) s))"
  by (induction s) (auto simp add: Let_def indexOf_notin)

lemma substring_prefix: "n \<le> length s \<Longrightarrow> substring s 0 (int n) = take n s"
  by (simp add: substring_def Let_def min_def max_def)

lemma substringFrom_drop: "n \<le> length s \<Longrightarrow> substringFrom s (int n) = drop n s"
  by (simp add: substringFrom_def substring_def Let_def min_def max_def)

section \<open>The line loop\<close>

lemma duplicateWarnings_Nil [simp]: "duplicateWarnings [] = []"
  by (simp add: duplicateWarnings_def Object_entries_def)

lemma duplicateWarnings_never [simp]: "duplicateWarnings keyCounts = []"
  by (simp add: duplicateWarnings_def Array_isArray_number_def)

lemma lineCallback_acc:
  "lineCallback line index (items, warns) = (items @ lineItems line index, warns @ lineWarnings line index)"
  by (simp add: lineCallback_def lineItems_def lineWarnings_def Let_def)

lemma forEachLine_acc:
  "forEachLine ls i (items, warns) =
     (items @ concat (map (\<lambda>j. lineItems (ls ! j) (i + j)) [0..<length ls]),
      warns @ concat (map (\<lambda>j. lineWarnings (ls ! j) (i + j)) [0..<length ls]))"
proof (induction ls arbitrary: i items warns)
  case Nil
  then show ?case by simp
next
  case (Cons l ls)
  show ?case
    by (simp add: lineCallback_acc Cons.IH map_upt_Suc del: upt_Suc)
qed

lemma parsedLines_items:
  "fst (parsedLines raw) =
     concat (map (\<lambda>j. lineItems (split_newline raw ! j) j) [0..<length (split_newline raw)])"
  by (simp add: parsedLines_def forEachLine_acc)

lemma parsedLines_warnings:
  "snd (parsedLines raw) =
     concat (map (\<lambda>j. lineWarnings (split_newline raw ! j) j) [0..<length (split_newline raw)])"
  by (simp add: parsedLines_def forEachLine_acc)

lemma parseWarnings_eq:
  "parseWarnings raw =
     concat (map (\<lambda>j. lineWarnings (split_newline raw ! j) j) [0..<length (split_newline raw)])"
  by (simp add: parseWarnings_def parsedLines_warnings)

lemma concat_upt_split:
  "i < n \<Longrightarrow> concat (map g [0..<n]) = concat (map g [0..<i]) @ g i @ concat (map g [Suc i..<n])"
proof -
  assume "i < n"
  then have "[0..<n] = [0..<i] @ [i..<n]"
    using upt_add_eq_append[of 0 i "n - i"] by simp
  with \<open>i < n\<close> have "[0..<n] = [0..<i] @ i # [Suc i..<n]"
    by (simp add: upt_conv_Cons)
  then show ?thesis by simp
qed

lemma lineItems_cases:
  "lineItems line index = [] \<or>
   (\<exists>k v. lineItems line index = [\<lparr>item_key = k, item_value = v, item_line = index + 1\<rparr>] \<and> k \<noteq> [])"
  by (simp add: lineItems_def lineCallback_def Let_def)

lemma lineItems_key_nonempty: "it \<in> set (lineItems line index) \<Longrightarrow> item_key it \<noteq> []"
  using lineItems_cases[of line index] by auto

lemma lineItems_line: "it \<in> set (lineItems line index) \<Longrightarrow> item_line it = index + 1"
  using lineItems_cases[of line index] by auto

lemma parsed_item_origin:
  "it \<in> set (fst (parsedLines raw)) \<Longrightarrow>
     \<exists>j < length (split_newline raw). it \<in> set (lineItems (split_newline raw ! j) j)"
  by (auto simp add: parsedLines_items)

lemma lineWarnings_cases:
  "lineWarnings line index = []
   \<or> lineWarnings line index = [noEqualsWarning (index + 1) (trim line)]
   \<or> lineWarnings line index = [emptyKeyWarning (index + 1) (trim line)]"
  by (simp add: lineWarnings_def lineCallback_def Let_def)

lemma trim_key_line:
  assumes K: "K \<noteq> []" and kc: "\<forall>c \<in> set K. keyChar c"
  shows "trim (K @ 0x3D # V) = K @ 0x3D # trimEnd V"
proof -
  have "keyChar (hd K)" using K kc by simp
  then have "\<not> isWhiteSpace (hd K)" by (rule keyChar_not_ws)
  then have s: "trimStart (K @ 0x3D # V) = K @ 0x3D # V"
    using K by (cases K) (simp_all add: trimStart_def)
  have e: "trimEnd (K @ 0x3D # V) = K @ 0x3D # trimEnd V"
  proof (cases "trimEnd V = []")
    case True
    then have "\<forall>c \<in> set V. isWhiteSpace c" by (simp add: trimEnd_eq_Nil)
    then have "trimEnd ((K @ [0x3D]) @ V) = trimEnd (K @ [0x3D])" by (rule trimEnd_all_ws)
    also have "\<dots> = K @ [0x3D]" by (rule trimEnd_append_keep) (simp_all add: eq_not_ws)
    finally show ?thesis using True by simp
  next
    case False
    then have "trimEnd ((K @ [0x3D]) @ V) = (K @ [0x3D]) @ trimEnd V" by (rule trimEnd_append)
    then show ?thesis by simp
  qed
  show ?thesis by (simp add: trim_eq s e)
qed

lemma lineCallback_key_line:
  assumes K: "K \<noteq> []" and kc: "\<forall>c \<in> set K. keyChar c"
  shows "lineCallback (K @ js ''='' @ V) index ([], []) =
           ([\<lparr>item_key = K, item_value = trim V, item_line = index + 1\<rparr>], [])"
proof -
  let ?t = "K @ 0x3D # trimEnd V"
  have l: "K @ js ''='' @ V = K @ 0x3D # V" by (simp add: js_def)
  have t: "trim (K @ 0x3D # V) = ?t" using K kc by (rule trim_key_line)
  have "hd K \<noteq> 0x23" using K kc keyChar_not_hash by simp
  then have h: "\<not> startsWith ?t (js ''#'')"
    using K by (cases K) (simp_all add: startsWith_def js_def)
  have noeq: "\<forall>c \<in> set K. c \<noteq> 0x3D" using kc keyChar_not_eq by blast
  then have tw: "takeWhile (\<lambda>x. x \<noteq> 0x3D) ?t = K"
    by (simp add: takeWhile_append2)
  have ix: "indexOf ?t 0x3D = int (length K)"
    using indexOf_in[of "0x3D" ?t] tw by simp
  have sk: "substring ?t 0 (int (length K)) = K"
    using substring_prefix[of "length K" ?t] by simp
  have "\<not> isWhiteSpace (hd K)" "\<not> isWhiteSpace (last K)"
    using K kc keyChar_not_ws by simp_all
  with K have tk: "trim K = K" by (simp add: trim_no_ws_ends)
  have "substringFrom ?t (int (Suc (length K))) = drop (Suc (length K)) ?t"
    by (rule substringFrom_drop) simp
  then have sv: "substringFrom ?t (int (length K) + 1) = trimEnd V"
    by (simp add: add.commute)
  show ?thesis
    unfolding l lineCallback_def
    using K by (simp add: Let_def t h ix sk tk sv trim_trimEnd del: of_nat_Suc)
qed

lemma lineCallback_no_equals:
  assumes t: "trim line \<noteq> []" and h: "\<not> startsWith (trim line) (js ''#'')"
    and n: "0x3D \<notin> set line"
  shows "lineCallback line index ([], []) = ([], [noEqualsWarning (index + 1) (trim line)])"
proof -
  have "0x3D \<notin> set (trim line)" using n set_trim_subset[of line] by blast
  then have "indexOf (trim line) 0x3D = -1" by (rule indexOf_notin)
  with t h show ?thesis by (simp add: lineCallback_def Let_def)
qed

lemma lineCallback_empty_key:
  assumes t: "trim line \<noteq> []" and h: "\<not> startsWith (trim line) (js ''#'')"
    and e: "0x3D \<in> set (trim line)"
    and k: "trim (takeWhile (\<lambda>c. c \<noteq> 0x3D) (trim line)) = []"
  shows "lineCallback line index ([], []) = ([], [emptyKeyWarning (index + 1) (trim line)])"
proof -
  let ?n = "length (takeWhile (\<lambda>c. c \<noteq> 0x3D) (trim line))"
  have ix: "indexOf (trim line) 0x3D = int ?n" using e by (rule indexOf_in)
  have "substring (trim line) 0 (int ?n) = take ?n (trim line)"
    by (rule substring_prefix) (rule length_takeWhile_le)
  also have "\<dots> = takeWhile (\<lambda>c. c \<noteq> 0x3D) (trim line)"
    by (rule takeWhile_eq_take[symmetric])
  finally have sk: "substring (trim line) 0 (int ?n) = takeWhile (\<lambda>c. c \<noteq> 0x3D) (trim line)" .
  show ?thesis
    using t h by (simp add: lineCallback_def Let_def ix sk k)
qed

lemma line_warning_recorded:
  "i < length (split_newline raw) \<Longrightarrow> w \<in> set (lineWarnings (split_newline raw ! i) i) \<Longrightarrow>
     w \<in> set (parseWarnings raw)"
  by (auto simp add: parseWarnings_eq)

lemma no_item_for_line:
  assumes i: "i < length (split_newline raw)" and e: "lineItems (split_newline raw ! i) i = []"
  shows "\<forall>it \<in> set (fst (parsedLines raw)). item_line it \<noteq> i + 1"
proof
  fix it assume "it \<in> set (fst (parsedLines raw))"
  then obtain j where j: "it \<in> set (lineItems (split_newline raw ! j) j)"
    using parsed_item_origin by blast
  then have "item_line it = j + 1" by (rule lineItems_line)
  moreover have "j \<noteq> i" using j e by auto
  ultimately show "item_line it \<noteq> i + 1" by simp
qed

lemma noEqualsWarning_not_duplicate:
  "\<not> startsWith (noEqualsWarning n t) (js ''Duplicate key'')"
  by (simp add: startsWith_def noEqualsWarning_def js_def)

lemma emptyKeyWarning_not_duplicate:
  "\<not> startsWith (emptyKeyWarning n t) (js ''Duplicate key'')"
  by (simp add: startsWith_def emptyKeyWarning_def js_def)

lemma warning_sets_error:
  assumes "w \<in> set (parseWarnings (rawText s))"
  shows "error (parseAndPopulate uuid s) = Some (join (parseWarnings (rawText s)) (js [CHR 0x0A]))"
proof -
  from assms have "parseWarnings (rawText s) \<noteq> []" by auto
  then show ?thesis by (simp add: parseAndPopulate_def Let_def)
qed

lemma skipped_line_effect:
  assumes i: "i < length (split_newline (rawText s))"
    and c: "lineCallback (split_newline (rawText s) ! i) i ([], []) = ([], [w])"
  shows "w \<in> set (parseWarnings (rawText s))
      \<and> (\<forall>it \<in> set (fst (parsedLines (rawText s))). item_line it \<noteq> i + 1)
      \<and> error (parseAndPopulate uuid s) = Some (join (parseWarnings (rawText s)) (js [CHR 0x0A]))"
proof -
  have w: "w \<in> set (parseWarnings (rawText s))"
    using c line_warning_recorded[OF i, of w] by (simp add: lineWarnings_def)
  have "lineItems (split_newline (rawText s) ! i) i = []"
    using c by (simp add: lineItems_def)
  with i have "\<forall>it \<in> set (fst (parsedLines (rawText s))). item_line it \<noteq> i + 1"
    by (rule no_item_for_line)
  with w warning_sets_error[OF w, of uuid] show ?thesis by blast
qed

section \<open>Deduplication through an object\<close>

lemma mset_Object_entries: "mset (Object_entries obj) = mset obj"
  by (simp add: Object_entries_def)

lemma set_Object_entries: "set (Object_entries obj) = set obj"
  using mset_Object_entries[of obj] by (metis set_mset_mset)

lemma distinct_keys_Object_entries:
  "distinct (map fst (Object_entries obj)) = distinct (map fst obj)"
proof -
  have "mset (map fst (Object_entries obj)) = mset (map fst obj)"
    by (simp add: mset_Object_entries)
  then show ?thesis by (rule mset_eq_imp_distinct_iff)
qed

lemma map_of_Object_entries:
  "distinct (map fst obj) \<Longrightarrow> map_of (Object_entries obj) = map_of obj"
  by (simp add: map_of_inject_set distinct_keys_Object_entries set_Object_entries)

lemma keys_defineProperty:
  "set (map fst (defineProperty obj k v)) = insert k (set (map fst obj))"
  by (induction obj) force+

lemma distinct_keys_defineProperty:
  "distinct (map fst obj) \<Longrightarrow> distinct (map fst (defineProperty obj k v))"
proof (induction obj)
  case Nil
  then show ?case by simp
next
  case (Cons p obj)
  obtain k' v' where p: "p = (k', v')" by (cases p)
  show ?case
  proof (cases "k' = k")
    case True
    with Cons.prems p show ?thesis by simp
  next
    case False
    have "set (map fst (defineProperty obj k v)) = insert k (set (map fst obj))"
      by (rule keys_defineProperty)
    with False Cons p show ?thesis by auto
  qed
qed

lemma map_of_defineProperty: "map_of (defineProperty obj k v) = (map_of obj)(k \<mapsto> v)"
  by (induction obj) (auto simp add: fun_eq_iff)

lemma distinct_keys_spreadWith:
  "distinct (map fst acc) \<Longrightarrow> distinct (map fst (spreadWith acc k v))"
  by (simp add: spreadWith_def distinct_keys_defineProperty distinct_keys_Object_entries)

lemma map_of_spreadWith:
  "distinct (map fst acc) \<Longrightarrow> map_of (spreadWith acc k v) = (map_of acc)(k \<mapsto> v)"
  by (simp add: spreadWith_def map_of_defineProperty map_of_Object_entries)

lemma reduce_spread:
  "distinct (map fst acc) \<Longrightarrow>
     distinct (map fst (foldl (\<lambda>acc item. spreadWith acc (item_key item) (item_value item)) acc items))
     \<and> map_of (foldl (\<lambda>acc item. spreadWith acc (item_key item) (item_value item)) acc items)
         = map_of acc ++ map_of (rev (map itemPair items))"
proof (induction items arbitrary: acc)
  case Nil
  then show ?case by simp
next
  case (Cons it items)
  let ?acc = "spreadWith acc (item_key it) (item_value it)"
  have d: "distinct (map fst ?acc)"
    using Cons.prems by (rule distinct_keys_spreadWith)
  have m: "map_of ?acc = (map_of acc)(item_key it \<mapsto> item_value it)"
    using Cons.prems by (rule map_of_spreadWith)
  have e: "(map_of acc)(item_key it \<mapsto> item_value it) ++ map_of (rev (map itemPair items))
        = map_of acc ++ map_of (rev (map itemPair (it # items)))"
    by (auto simp add: fun_eq_iff map_add_def itemPair_def split: option.splits)
  have step: "foldl (\<lambda>acc item. spreadWith acc (item_key item) (item_value item)) acc (it # items)
        = foldl (\<lambda>acc item. spreadWith acc (item_key item) (item_value item)) ?acc items"
    by simp
  from Cons.IH[OF d] show ?case
    unfolding step m e by assumption
qed

lemma distinct_keys_deduped: "distinct (map fst (deduped items))"
  using reduce_spread[of "[]" items] by (simp add: deduped_def)

lemma map_of_deduped: "map_of (deduped items) = map_of (rev (map itemPair items))"
  using reduce_spread[of "[]" items] by (simp add: deduped_def)

lemma keys_deduped: "set (map fst (deduped items)) = item_key ` set items"
proof -
  have "dom (map_of (deduped items)) = dom (map_of (rev (map itemPair items)))"
    by (simp add: map_of_deduped)
  then show ?thesis
    by (simp add: dom_map_of_conv_image_fst itemPair_def image_image)
qed

lemma distinct_keys_entries: "distinct (map fst (Object_entries (deduped items)))"
  by (simp add: distinct_keys_Object_entries distinct_keys_deduped)

lemma map_of_entries:
  "map_of (Object_entries (deduped items)) = map_of (rev (map itemPair items))"
  by (simp add: map_of_Object_entries distinct_keys_deduped map_of_deduped)

lemma keys_entries: "set (map fst (Object_entries (deduped items))) = item_key ` set items"
  using keys_deduped[of items] by (simp add: set_Object_entries)

lemma length_entries: "length (Object_entries (deduped items)) = card (item_key ` set items)"
proof -
  have "length (Object_entries (deduped items)) = length (map fst (Object_entries (deduped items)))"
    by simp
  also have "\<dots> = card (set (map fst (Object_entries (deduped items))))"
    using distinct_keys_entries[of items] by (simp only: distinct_card)
  finally show ?thesis by (simp only: keys_entries)
qed

lemma map_of_last_definition:
  "items = pre @ it # post \<Longrightarrow> item_key it \<notin> item_key ` set post \<Longrightarrow>
     map_of (rev (map itemPair items)) (item_key it) = Some (item_value it)"
proof -
  assume i: "items = pre @ it # post" and n: "item_key it \<notin> item_key ` set post"
  have "map_of (rev (map itemPair post)) (item_key it) = None"
    using n by (simp add: map_of_eq_None_iff itemPair_def image_image)
  then show ?thesis
    using i by (simp add: map_add_def itemPair_def)
qed

section \<open>The rows built from the entries\<close>

lemma buildVars_split:
  "buildVars uuid n entries = entryRows uuid n entries @ paddingRows uuid n (length entries)"
proof -
  let ?L = "length entries" and ?M = "max INITIAL_ROW_COUNT (length entries)"
  have "[0..<?M] = [0..<?L] @ [?L..<?M]"
    using upt_add_eq_append[of 0 ?L "?M - ?L"] by simp
  then show ?thesis
    by (simp add: buildVars_def entryRows_def paddingRows_def Let_def case_prod_beta)
qed

lemma length_entryRows [simp]: "length (entryRows uuid n entries) = length entries"
  by (simp add: entryRows_def)

lemma length_paddingRows [simp]: "length (paddingRows uuid n m) = INITIAL_ROW_COUNT - m"
  by (simp add: paddingRows_def)

lemma map_rowPair_entryRows: "map rowPair (entryRows uuid n entries) = entries"
  by (rule nth_equalityI) (simp_all add: entryRows_def rowPair_def)

lemma padding_key: "r \<in> set (paddingRows uuid n m) \<Longrightarrow> var_key r = [] \<and> var_value r = []"
  by (auto simp add: paddingRows_def createEmptyVariable_def)

lemma filter_paddingRows:
  "filter (\<lambda>r. trim (var_key r) \<noteq> [] \<and> Q r) (paddingRows uuid n m) = []"
  by (auto simp add: filter_empty_conv dest: padding_key)

lemma filter_paddingRows_key:
  "filter (\<lambda>r. trim (var_key r) \<noteq> []) (paddingRows uuid n m) = []"
  by (auto simp add: filter_empty_conv dest: padding_key)

lemma filter_distinct_key:
  "distinct (map fst es) \<Longrightarrow> map_of es k = Some v \<Longrightarrow> filter (\<lambda>p. fst p = k) es = [(k, v)]"
proof (induction es)
  case Nil
  then show ?case by simp
next
  case (Cons p es)
  obtain k' v' where p: "p = (k', v')" by (cases p)
  show ?case
  proof (cases "k' = k")
    case True
    with Cons.prems p have "v' = v" by simp
    moreover have "filter (\<lambda>p. fst p = k) es = []"
      using Cons.prems p True by (auto simp add: filter_empty_conv)
    ultimately show ?thesis using p True by simp
  next
    case False
    with Cons p show ?thesis by simp
  qed
qed

lemma rows_with_key:
  assumes d: "distinct (map fst entries)" and m: "map_of entries k = Some v" and k: "k \<noteq> []"
  shows "\<exists>r. filter (\<lambda>r. var_key r = k) (buildVars uuid n entries) = [r]
           \<and> var_key r = k \<and> var_value r = v"
proof -
  have pad: "filter (\<lambda>r. var_key r = k) (paddingRows uuid n (length entries)) = []"
    using k by (auto simp add: filter_empty_conv dest: padding_key)
  have "map rowPair (filter (\<lambda>r. var_key r = k) (entryRows uuid n entries))
          = filter (\<lambda>p. fst p = k) (map rowPair (entryRows uuid n entries))"
    by (simp add: filter_map comp_def rowPair_def)
  also have "\<dots> = [(k, v)]"
    using d m by (simp add: map_rowPair_entryRows filter_distinct_key)
  finally obtain r where r: "filter (\<lambda>r. var_key r = k) (entryRows uuid n entries) = [r]"
    and p: "rowPair r = (k, v)"
    by (auto simp add: map_eq_Cons_conv)
  from r pad p show ?thesis
    by (simp add: buildVars_split rowPair_def)
qed

lemma variables_parseAndPopulate:
  "variables (parseAndPopulate uuid s) =
     buildVars uuid (uuidCount s) (Object_entries (deduped (fst (parsedLines (rawText s)))))"
  by (simp add: parseAndPopulate_def Let_def)

lemma row_for_last_definition:
  assumes i: "i < length (split_newline (rawText s))"
    and it: "it \<in> set (lineItems (split_newline (rawText s) ! i) i)"
    and later: "\<forall>j. i < j \<and> j < length (split_newline (rawText s)) \<longrightarrow>
                  item_key it \<notin> item_key ` set (lineItems (split_newline (rawText s) ! j) j)"
  shows "\<exists>r. filter (\<lambda>r. var_key r = item_key it) (variables (parseAndPopulate uuid s)) = [r]
           \<and> var_key r = item_key it \<and> var_value r = item_value it"
proof -
  let ?ls = "split_newline (rawText s)"
  let ?g = "\<lambda>j. lineItems (?ls ! j) j"
  let ?items = "fst (parsedLines (rawText s))"
  have one: "?g i = [it]"
    using it lineItems_cases[of "?ls ! i" i] by auto
  have "?items = concat (map ?g [0..<i]) @ it # concat (map ?g [Suc i..<length ?ls])"
    using concat_upt_split[OF i, of ?g] one by (simp add: parsedLines_items)
  moreover have "item_key it \<notin> item_key ` set (concat (map ?g [Suc i..<length ?ls]))"
  proof
    assume "item_key it \<in> item_key ` set (concat (map ?g [Suc i..<length ?ls]))"
    then obtain j where "i < j" "j < length ?ls" "item_key it \<in> item_key ` set (?g j)"
      by (auto simp add: Suc_le_eq)
    with later show False by blast
  qed
  ultimately have "map_of (rev (map itemPair ?items)) (item_key it) = Some (item_value it)"
    by (rule map_of_last_definition)
  then have m: "map_of (Object_entries (deduped ?items)) (item_key it) = Some (item_value it)"
    by (simp only: map_of_entries)
  have k: "item_key it \<noteq> []"
    using it by (rule lineItems_key_nonempty)
  show ?thesis
    unfolding variables_parseAndPopulate
    using distinct_keys_entries m k by (rule rows_with_key)
qed

lemma handleVariableChange_variables:
  "variables (handleVariableChange rid field v s) =
     map (\<lambda>row. if var_id row = rid then setField field v row else row) (variables s)"
  by (simp add: handleVariableChange_def Let_def)

section \<open>Invariants of the reachable states\<close>

lemma rowErrors_parseAndPopulate [simp]: "rowErrors (parseAndPopulate uuid s) = rowErrors s"
  by (simp add: parseAndPopulate_def Let_def)

lemma reachable_errorsNonEmpty: "reachable uuid s \<Longrightarrow> errorsNonEmpty s"
proof (induction rule: reachable.induct)
  case mounted
  show ?case by (simp add: errorsNonEmpty_def initialState_def)
next
  case (textChange s t)
  then show ?case by (simp add: errorsNonEmpty_def handleTextChange_def)
next
  case (variableChange s rid field v)
  then show ?case
    by (auto simp add: errorsNonEmpty_def handleVariableChange_def Let_def split: if_splits)
next
  case (addRow s)
  then show ?case by (simp add: errorsNonEmpty_def addVariableRow_def)
next
  case (deleteRow s rid)
  then show ?case by (simp add: errorsNonEmpty_def deleteVariableRow_def)
next
  case (clearedAll s)
  show ?case by (simp add: errorsNonEmpty_def clearAll_def)
next
  case (clearedText s)
  then show ?case by (simp add: errorsNonEmpty_def clearText_def)
next
  case (statusTimer s)
  then show ?case by (simp add: errorsNonEmpty_def clearStatus_def)
next
  case (reparse s)
  then show ?case by (simp add: errorsNonEmpty_def rawTextEffect_def)
qed

lemma var_id_setField [simp]: "var_id (setField field v row) = var_id row"
  by (cases field) (simp_all add: setField_def)

lemma emptyRows_ids:
  assumes "r \<in> set (emptyRows uuid n)"
  shows "\<exists>k < n + INITIAL_ROW_COUNT. var_id r = uuid k"
proof -
  from assms obtain i where "i < INITIAL_ROW_COUNT" "var_id r = uuid (n + i)"
    by (auto simp add: emptyRows_def createEmptyVariable_def)
  then have "n + i < n + INITIAL_ROW_COUNT \<and> var_id r = uuid (n + i)" by simp
  then show ?thesis by blast
qed

lemma buildVars_nth_id:
  "i < length (buildVars uuid n entries) \<Longrightarrow> var_id (buildVars uuid n entries ! i) = uuid (n + i)"
  by (simp add: buildVars_def Let_def createEmptyVariable_def case_prod_beta)

lemma buildVars_ids:
  assumes "r \<in> set (buildVars uuid n entries)"
  shows "\<exists>k < n + length (buildVars uuid n entries). var_id r = uuid k"
proof -
  from assms obtain i where i: "i < length (buildVars uuid n entries)" "r = buildVars uuid n entries ! i"
    by (auto simp add: in_set_conv_nth)
  then have "n + i < n + length (buildVars uuid n entries) \<and> var_id r = uuid (n + i)"
    by (simp add: buildVars_nth_id)
  then show ?thesis by blast
qed

lemma parseAndPopulate_idsIssued: "idsIssued uuid (parseAndPopulate uuid s)"
  unfolding idsIssued_def
proof
  fix r assume "r \<in> set (variables (parseAndPopulate uuid s))"
  then have "\<exists>k < uuidCount s + length (variables (parseAndPopulate uuid s)). var_id r = uuid k"
    unfolding variables_parseAndPopulate by (rule buildVars_ids)
  moreover have "uuidCount (parseAndPopulate uuid s) = uuidCount s + length (variables (parseAndPopulate uuid s))"
    by (simp add: parseAndPopulate_def Let_def)
  ultimately show "\<exists>k < uuidCount (parseAndPopulate uuid s). var_id r = uuid k" by simp
qed

lemma reachable_idsIssued: "reachable uuid s \<Longrightarrow> idsIssued uuid s"
proof (induction rule: reachable.induct)
  case mounted
  show ?case
    using emptyRows_ids[of _ uuid 0] by (simp add: idsIssued_def initialState_def)
next
  case (textChange s t)
  then show ?case by (simp add: idsIssued_def handleTextChange_def)
next
  case (variableChange s rid field v)
  then show ?case
    by (auto simp add: idsIssued_def handleVariableChange_def Let_def)
next
  case (addRow s)
  then show ?case
    by (auto simp add: idsIssued_def addVariableRow_def createEmptyVariable_def less_Suc_eq)
next
  case (deleteRow s rid)
  then show ?case by (simp add: idsIssued_def deleteVariableRow_def)
next
  case (clearedAll s)
  show ?case
    using emptyRows_ids[of _ uuid "uuidCount s"] by (simp add: idsIssued_def clearAll_def)
next
  case (clearedText s)
  then show ?case by (simp add: idsIssued_def clearText_def)
next
  case (statusTimer s)
  then show ?case by (simp add: idsIssued_def clearStatus_def)
next
  case (reparse s)
  then show ?case by (simp add: rawTextEffect_def parseAndPopulate_idsIssued)
qed

lemma clearAll_ids:
  "map var_id (variables (clearAll uuid s)) = map (\<lambda>i. uuid (uuidCount s + i)) [0..<20]"
  by (simp add: clearAll_def emptyRows_def INITIAL_ROW_COUNT_def createEmptyVariable_def comp_def)

lemma clearAll_fresh_ids:
  assumes r: "reachable uuid s" and i: "inj uuid"
  shows "distinct (map var_id (variables (clearAll uuid s)))
        \<and> set (map var_id (variables (clearAll uuid s))) \<inter> set (map var_id (variables s)) = {}"
proof
  have "inj (\<lambda>i. uuid (uuidCount s + i))"
  proof (rule injI)
    fix x y assume "uuid (uuidCount s + x) = uuid (uuidCount s + y)"
    with i have "uuidCount s + x = uuidCount s + y" by (simp add: inj_eq)
    then show "x = y" by simp
  qed
  then show "distinct (map var_id (variables (clearAll uuid s)))"
    unfolding clearAll_ids by (simp add: distinct_map inj_on_def inj_def)
  have old: "\<forall>r \<in> set (variables s). \<exists>k < uuidCount s. var_id r = uuid k"
    using reachable_idsIssued[OF r] by (simp add: idsIssued_def)
  show "set (map var_id (variables (clearAll uuid s))) \<inter> set (map var_id (variables s)) = {}"
  proof (rule ccontr)
    assume "set (map var_id (variables (clearAll uuid s))) \<inter> set (map var_id (variables s)) \<noteq> {}"
    then obtain x where x1: "x \<in> set (map var_id (variables (clearAll uuid s)))"
      and x2: "x \<in> set (map var_id (variables s))" by blast
    from x1 obtain j where j: "x = uuid (uuidCount s + j)" unfolding clearAll_ids by auto
    from x2 old obtain k where k: "k < uuidCount s" "x = uuid k" by auto
    from j k i have "uuidCount s + j = k" by (auto simp add: inj_def)
    with k show False by simp
  qed
qed

section \<open>The sample inputs, evaluated\<close>

lemmas evalLine = lineCallback_def Let_def js_def trim_def isWhiteSpace_def startsWith_def
  substring_def substringFrom_def

lemma sample_lines:
  "split_newline rawSample =
     [js ''onlykey'', js '' =v'', js ''10=b'', js ''A=1'', js ''FOO= bar baz '', js ''2=c'',
      js ''# note'', js ''A=2'', js ''Z=9'']"
  by (simp add: rawSample_def js_def)

lemma sample_line0:
  "lineCallback (js ''onlykey'') 0 ([], []) = ([], [noEqualsWarning 1 (js ''onlykey'')])"
  by (simp add: evalLine)

lemma sample_line1:
  "lineCallback (js '' =v'') (Suc 0) ([], []) = ([], [emptyKeyWarning 2 (js ''=v'')])"
proof -
  have two: "Suc (Suc 0) = 2" by simp
  show ?thesis by (simp add: evalLine two)
qed

lemma sample_line2:
  "lineCallback (js ''10=b'') 2 ([], []) =
     ([\<lparr>item_key = js ''10'', item_value = js ''b'', item_line = 3\<rparr>], [])"
  by (simp add: evalLine)

lemma sample_line3:
  "lineCallback (js ''A=1'') 3 ([], []) =
     ([\<lparr>item_key = js ''A'', item_value = js ''1'', item_line = 4\<rparr>], [])"
  by (simp add: evalLine)

lemma sample_line4:
  "lineCallback (js ''FOO= bar baz '') 4 ([], []) =
     ([\<lparr>item_key = js ''FOO'', item_value = js ''bar baz'', item_line = 5\<rparr>], [])"
  by (simp add: evalLine)

lemma sample_line5:
  "lineCallback (js ''2=c'') 5 ([], []) =
     ([\<lparr>item_key = js ''2'', item_value = js ''c'', item_line = 6\<rparr>], [])"
  by (simp add: evalLine)

lemma sample_line6: "lineCallback (js ''# note'') 6 ([], []) = ([], [])"
  by (simp add: evalLine)

lemma sample_line7:
  "lineCallback (js ''A=2'') 7 ([], []) =
     ([\<lparr>item_key = js ''A'', item_value = js ''2'', item_line = 8\<rparr>], [])"
  by (simp add: evalLine)

lemma sample_line8:
  "lineCallback (js ''Z=9'') 8 ([], []) =
     ([\<lparr>item_key = js ''Z'', item_value = js ''9'', item_line = 9\<rparr>], [])"
  by (simp add: evalLine)

lemmas sample_callbacks = sample_line0 sample_line1 sample_line2 sample_line3 sample_line4
  sample_line5 sample_line6 sample_line7 sample_line8

lemma sample_parsed:
  "parsedLines rawSample =
     ([\<lparr>item_key = js ''10'', item_value = js ''b'', item_line = 3\<rparr>,
       \<lparr>item_key = js ''A'', item_value = js ''1'', item_line = 4\<rparr>,
       \<lparr>item_key = js ''FOO'', item_value = js ''bar baz'', item_line = 5\<rparr>,
       \<lparr>item_key = js ''2'', item_value = js ''c'', item_line = 6\<rparr>,
       \<lparr>item_key = js ''A'', item_value = js ''2'', item_line = 8\<rparr>,
       \<lparr>item_key = js ''Z'', item_value = js ''9'', item_line = 9\<rparr>],
      [noEqualsWarning 1 (js ''onlykey''), emptyKeyWarning 2 (js ''=v'')])"
proof -
  have "parsedLines rawSample =
     (concat (map (\<lambda>j. lineItems (split_newline rawSample ! j) j) [0..<length (split_newline rawSample)]),
      concat (map (\<lambda>j. lineWarnings (split_newline rawSample ! j) j) [0..<length (split_newline rawSample)]))"
    by (simp add: parsedLines_def forEachLine_acc)
  also have "[0..<length (split_newline rawSample)] = [0, 1, 2, 3, 4, 5, 6, 7, 8]"
    by (simp add: sample_lines upt_rec)
  finally show ?thesis
    by (simp add: sample_lines lineItems_def lineWarnings_def sample_callbacks)
qed

lemma sample_index_keys:
  "isArrayIndex (js ''10'')" "isArrayIndex (js ''2'')" "\<not> isArrayIndex (js ''A'')"
  "\<not> isArrayIndex (js ''FOO'')" "\<not> isArrayIndex (js ''Z'')"
  "digitsValue (js ''10'') = 10" "digitsValue (js ''2'') = 2"
  by (simp_all add: isArrayIndex_def isDigit_def digitsValue_def js_def)

lemma sample_key_diff:
  "js ''10'' \<noteq> js ''A''" "js ''10'' \<noteq> js ''FOO''" "js ''10'' \<noteq> js ''2''" "js ''10'' \<noteq> js ''Z''"
  "js ''A'' \<noteq> js ''FOO''" "js ''A'' \<noteq> js ''2''" "js ''A'' \<noteq> js ''Z''"
  "js ''FOO'' \<noteq> js ''2''" "js ''FOO'' \<noteq> js ''Z''" "js ''2'' \<noteq> js ''Z''"
  by (simp_all add: js_def)

lemma sample_entries:
  "Object_entries (deduped (fst (parsedLines rawSample))) =
     [(js ''2'', js ''c''), (js ''10'', js ''b''), (js ''A'', js ''2''),
      (js ''FOO'', js ''bar baz''), (js ''Z'', js ''9'')]"
  by (simp add: sample_parsed deduped_def spreadWith_def Object_entries_def
      sample_index_keys sample_key_diff sample_key_diff[symmetric])

lemma rawText_pastedSample: "rawText pastedSample = rawSample"
  by (simp add: pastedSample_def handleTextChange_def)

lemma rawText_pastedClean: "rawText pastedClean = rawClean"
  by (simp add: pastedClean_def handleTextChange_def)

lemma sample_length: "length (split_newline rawSample) = 9"
  by (simp add: sample_lines)

lemma sample_nth:
  "split_newline rawSample ! 0 = js ''onlykey''"
  "split_newline rawSample ! Suc 0 = js '' =v''"
  "split_newline rawSample ! 2 = js ''10=b''"
  "split_newline rawSample ! 3 = js ''A=1''"
  "split_newline rawSample ! 4 = js ''FOO= bar baz ''"
  "split_newline rawSample ! 5 = js ''2=c''"
  "split_newline rawSample ! 6 = js ''# note''"
  "split_newline rawSample ! 7 = js ''A=2''"
  "split_newline rawSample ! 8 = js ''Z=9''"
  by (simp_all add: sample_lines)

lemma sample_line_keys:
  "j < 9 \<Longrightarrow> item_key ` set (fst (lineCallback (split_newline rawSample ! j) j ([], [])))
     = (if j = 2 then {js ''10''} else if j = 3 \<or> j = 7 then {js ''A''} else if j = 4 then {js ''FOO''}
        else if j = 5 then {js ''2''} else if j = 8 then {js ''Z''} else {})"
proof -
  assume "j < 9"
  then have "j = 0 \<or> j = Suc 0 \<or> j = 2 \<or> j = 3 \<or> j = 4 \<or> j = 5 \<or> j = 6 \<or> j = 7 \<or> j = 8"
    by arith
  then show ?thesis
    by (elim disjE) (simp_all add: sample_nth sample_callbacks)
qed

lemma sample_warnings:
  "parseWarnings rawSample = [noEqualsWarning 1 (js ''onlykey''), emptyKeyWarning 2 (js ''=v'')]"
  by (simp add: parseWarnings_def sample_parsed)

lemma sample_warning_text:
  \<open>noEqualsWarning (0 + 1) (js ''onlykey'') = js ''Warning: Line 1 does not contain '='. Input: "onlykey". Skipping.''\<close>
  \<open>emptyKeyWarning (Suc 0 + 1) (js ''=v'') = js ''Warning: Empty key on line 2. Input: "=v". Skipping.''\<close>
  by (simp_all add: noEqualsWarning_def emptyKeyWarning_def numberToString.simps js_def)

lemma clean_lines:
  "split_newline rawClean = [js ''FOO=bar'', js ''#comment'', js ''BAZ=qux'', []]"
  by (simp add: rawClean_def js_def)

lemma clean_line0:
  "lineCallback (js ''FOO=bar'') 0 ([], []) =
     ([\<lparr>item_key = js ''FOO'', item_value = js ''bar'', item_line = 1\<rparr>], [])"
  by (simp add: evalLine)

lemma clean_line1: "lineCallback (js ''#comment'') (Suc 0) ([], []) = ([], [])"
  by (simp add: evalLine)

lemma clean_line2:
  "lineCallback (js ''BAZ=qux'') 2 ([], []) =
     ([\<lparr>item_key = js ''BAZ'', item_value = js ''qux'', item_line = 3\<rparr>], [])"
  by (simp add: evalLine)

lemma clean_line3: "lineCallback [] 3 ([], []) = ([], [])"
  by (simp add: evalLine)

lemma clean_parsed:
  "parsedLines rawClean =
     ([\<lparr>item_key = js ''FOO'', item_value = js ''bar'', item_line = 1\<rparr>,
       \<lparr>item_key = js ''BAZ'', item_value = js ''qux'', item_line = 3\<rparr>], [])"
proof -
  have "parsedLines rawClean =
     (concat (map (\<lambda>j. lineItems (split_newline rawClean ! j) j) [0..<length (split_newline rawClean)]),
      concat (map (\<lambda>j. lineWarnings (split_newline rawClean ! j) j) [0..<length (split_newline rawClean)]))"
    by (simp add: parsedLines_def forEachLine_acc)
  also have "[0..<length (split_newline rawClean)] = [0, 1, 2, 3]"
    by (simp add: clean_lines upt_rec)
  finally show ?thesis
    by (simp add: clean_lines lineItems_def lineWarnings_def clean_line0 clean_line1 clean_line2 clean_line3)
qed

lemma clean_entries:
  "Object_entries (deduped (fst (parsedLines rawClean))) = [(js ''FOO'', js ''bar''), (js ''BAZ'', js ''qux'')]"
proof -
  have "\<not> isArrayIndex (js ''FOO'')" "\<not> isArrayIndex (js ''BAZ'')" "js ''FOO'' \<noteq> js ''BAZ''"
    by (simp_all add: isArrayIndex_def isDigit_def js_def)
  then show ?thesis
    by (simp add: clean_parsed deduped_def spreadWith_def Object_entries_def)
qed

lemma clean_warnings: "parseWarnings rawClean = []"
  by (simp add: parseWarnings_def clean_parsed)

lemma inj_sampleUuid: "inj sampleUuid"
proof (rule injI)
  fix x y assume "sampleUuid x = sampleUuid y"
  then have "length (sampleUuid x) = length (sampleUuid y)" by simp
  then show "x = y" by (simp add: sampleUuid_def)
qed

lemma reachable_pastedSample: "reachable sampleUuid pastedSample"
  unfolding pastedSample_def by (intro reachable.textChange reachable.mounted)

lemma reachable_pastedClean: "reachable sampleUuid pastedClean"
  unfolding pastedClean_def by (intro reachable.textChange reachable.mounted)

section \<open>The specification, claim by claim\<close>

subsection \<open>C1: key validation in handleVariableChange\<close>

text \<open>
  Claim C1. Editing the key field of the row with id \<open>rid\<close> to \<open>v\<close>: when \<open>v\<close>
  trims to the empty string, the error of the row becomes "Key is required."; when it does
  not but some character of \<open>v\<close> is outside \<^verbatim>\<open>[A-Za-z0-9_]\<close>, it becomes "Only letters,
  digits, and underscore allowed."; for every other \<open>v\<close> (a well-formed key) it becomes
  the non-empty text "Error in " followed by the id, so it is not cleared. In each case, and
  for an edit of the value field too, every row with that id takes \<open>v\<close> in the edited field
  and the other rows stay as they are; an edit of the value field leaves \<open>rowErrors\<close> as
  it was.
\<close>

theorem handleVariableChange_key_validation:
  fixes s :: EditorState and rid v :: jsstring
  defines "s' \<equiv> handleVariableChange rid KeyField v s"
  shows "(trim v = [] \<longrightarrow> rowErrors s' rid = Some (js ''Key is required.''))
    \<and> (trim v \<noteq> [] \<and> (\<exists>c \<in> set v. \<not> keyChar c) \<longrightarrow>
         rowErrors s' rid = Some (js ''Only letters, digits, and underscore allowed.''))
    \<and> (trim v \<noteq> [] \<and> (\<forall>c \<in> set v. keyChar c) \<longrightarrow>
         rowErrors s' rid = Some (js ''Error in '' @ rid) \<and> js ''Error in '' @ rid \<noteq> [])
    \<and> length (variables s') = length (variables s)
    \<and> (\<forall>i < length (variables s).
          variables s' ! i =
            (if var_id (variables s ! i) = rid then (variables s ! i)\<lparr>var_key := v\<rparr> else variables s ! i))
    \<and> (\<forall>i < length (variables s).
          variables (handleVariableChange rid ValueField v s) ! i =
            (if var_id (variables s ! i) = rid then (variables s ! i)\<lparr>var_value := v\<rparr> else variables s ! i))
    \<and> rowErrors (handleVariableChange rid ValueField v s) = rowErrors s"
proof -
  have ne: "trim v \<noteq> [] \<Longrightarrow> v \<noteq> []" by auto
  have a: "trim v = [] \<longrightarrow> rowErrors s' rid = Some (js ''Key is required.'')"
    by (simp add: s'_def handleVariableChange_def Let_def)
  have b: "trim v \<noteq> [] \<and> (\<exists>c \<in> set v. \<not> keyChar c) \<longrightarrow>
         rowErrors s' rid = Some (js ''Only letters, digits, and underscore allowed.'')"
    using ne by (auto simp add: s'_def handleVariableChange_def Let_def KEY_REGEX_test_iff)
  have c: "trim v \<noteq> [] \<and> (\<forall>c \<in> set v. keyChar c) \<longrightarrow>
         rowErrors s' rid = Some (js ''Error in '' @ rid) \<and> js ''Error in '' @ rid \<noteq> []"
    using ne by (auto simp add: s'_def handleVariableChange_def Let_def KEY_REGEX_test_iff)
  have d: "length (variables s') = length (variables s)"
    by (simp add: s'_def handleVariableChange_variables)
  have e: "\<forall>i < length (variables s).
          variables s' ! i =
            (if var_id (variables s ! i) = rid then (variables s ! i)\<lparr>var_key := v\<rparr> else variables s ! i)"
    by (simp add: s'_def handleVariableChange_variables setField_def)
  have f: "\<forall>i < length (variables s).
          variables (handleVariableChange rid ValueField v s) ! i =
            (if var_id (variables s ! i) = rid then (variables s ! i)\<lparr>var_value := v\<rparr> else variables s ! i)"
    by (simp add: handleVariableChange_variables setField_def)
  have g: "rowErrors (handleVariableChange rid ValueField v s) = rowErrors s"
    by (simp add: handleVariableChange_def Let_def)
  from a b c d e f g show ?thesis by blast
qed

theorem handleVariableChange_key_validation_witness:
  "trim (js '' '') = []
   \<and> rowErrors (handleVariableChange (js ''r1'') KeyField (js '' '') sampleState) (js ''r1'')
       = Some (js ''Key is required.'')
   \<and> trim (js ''A B'') \<noteq> [] \<and> (\<exists>c \<in> set (js ''A B''). \<not> keyChar c)
   \<and> rowErrors (handleVariableChange (js ''r1'') KeyField (js ''A B'') sampleState) (js ''r1'')
       = Some (js ''Only letters, digits, and underscore allowed.'')
   \<and> trim (js ''FOO'') \<noteq> [] \<and> list_all keyChar (js ''FOO'')
   \<and> rowErrors (handleVariableChange (js ''r1'') KeyField (js ''FOO'') sampleState) (js ''r1'')
       = Some (js ''Error in r1'')
   \<and> (0::nat) < length (variables sampleState)
   \<and> var_key (variables (handleVariableChange (js ''r1'') KeyField (js ''FOO'') sampleState) ! 0) = js ''FOO''
   \<and> var_value (variables (handleVariableChange (js ''r1'') ValueField (js ''x y'') sampleState) ! 0) = js ''x y''"
proof -
  have h1: "trim (js '' '') = []"
    by (simp add: trim_def js_def isWhiteSpace_def)
  have h2: "trim (js ''A B'') \<noteq> [] \<and> (\<exists>c \<in> set (js ''A B''). \<not> keyChar c)"
    by (simp add: trim_def js_def isWhiteSpace_def keyChar_def)
  have h3: "trim (js ''FOO'') \<noteq> [] \<and> (\<forall>c \<in> set (js ''FOO''). keyChar c)"
    by (simp add: trim_def js_def isWhiteSpace_def keyChar_def)
  have h4: "(0::nat) < length (variables sampleState)"
    by (simp add: sampleState_def)
  have e: "js ''Error in '' @ js ''r1'' = js ''Error in r1''"
    by (simp add: js_def)
  have v: "var_id (variables sampleState ! 0) = js ''r1''"
    by (simp add: sampleState_def)
  note t1 = handleVariableChange_key_validation [of "js '' ''" "js ''r1''" sampleState]
  note t2 = handleVariableChange_key_validation [of "js ''A B''" "js ''r1''" sampleState]
  note t3 = handleVariableChange_key_validation [of "js ''FOO''" "js ''r1''" sampleState]
  note t4 = handleVariableChange_key_validation [of "js ''x y''" "js ''r1''" sampleState]
  from t1 h1 have c1: "rowErrors (handleVariableChange (js ''r1'') KeyField (js '' '') sampleState) (js ''r1'')
       = Some (js ''Key is required.'')" by blast
  from t2 h2 have c2: "rowErrors (handleVariableChange (js ''r1'') KeyField (js ''A B'') sampleState) (js ''r1'')
       = Some (js ''Only letters, digits, and underscore allowed.'')" by blast
  from t3 h3 e have c3: "rowErrors (handleVariableChange (js ''r1'') KeyField (js ''FOO'') sampleState) (js ''r1'')
       = Some (js ''Error in r1'')" by simp
  from t3 h4 v have c4: "var_key (variables (handleVariableChange (js ''r1'') KeyField (js ''FOO'') sampleState) ! 0) = js ''FOO''"
    by simp
  from t4 h4 v have c5: "var_value (variables (handleVariableChange (js ''r1'') ValueField (js ''x y'') sampleState) ! 0) = js ''x y''"
    by simp
  from h3 have h3': "list_all keyChar (js ''FOO'')" by (simp add: list_all_iff)
  from h1 h2 h3 h3' h4 c1 c2 c3 c4 c5 show ?thesis by blast
qed

subsection \<open>C2: getOutputText\<close>

text \<open>
  Claim C2. In every state the component can be in, \<open>getOutputText\<close> is the rows whose
  key trims to a non-empty string and whose id has no entry in \<open>rowErrors\<close>, in row
  order, each written as key, \<^verbatim>\<open>=\<close>, value (the value as it is), joined by newlines.
  The code tests \<^verbatim>\<open>!rowErrors[r.id]\<close>, which also lets an empty message through; no
  reachable state holds one, which is the invariant \<open>errorsNonEmpty\<close>.
\<close>

theorem getOutputText_rows:
  assumes "reachable uuid s"
  shows "getOutputText s =
     join (map (\<lambda>r. var_key r @ js ''='' @ var_value r)
             (filter (\<lambda>r. trim (var_key r) \<noteq> [] \<and> rowErrors s (var_id r) = None) (variables s)))
          (js [CHR 0x0A])"
proof -
  have "errorsNonEmpty s" using assms by (rule reachable_errorsNonEmpty)
  then have "\<And>rid. truthy (rowErrors s rid) \<longleftrightarrow> rowErrors s rid \<noteq> None"
    by (auto simp add: errorsNonEmpty_def truthy_def split: option.splits)
  then show ?thesis by (simp add: getOutputText_def)
qed

theorem getOutputText_rows_witness:
  "reachable sampleUuid (rawTextEffect sampleUuid pastedClean)
   \<and> getOutputText (rawTextEffect sampleUuid pastedClean) = js ''FOO=bar'' @ [0x0A] @ js ''BAZ=qux''
   \<and> reachable sampleUuid (handleVariableChange (sampleUuid 20) KeyField (js ''FOO'') (rawTextEffect sampleUuid pastedClean))
   \<and> getOutputText (handleVariableChange (sampleUuid 20) KeyField (js ''FOO'') (rawTextEffect sampleUuid pastedClean))
       = js ''BAZ=qux''"
proof -
  let ?s = "rawTextEffect sampleUuid pastedClean"
  let ?s' = "handleVariableChange (sampleUuid 20) KeyField (js ''FOO'') ?s"
  have r: "reachable sampleUuid ?s"
    using reachable_pastedClean by (rule reachable.reparse)
  then have r': "reachable sampleUuid ?s'" by (rule reachable.variableChange)
  have ne: "rawText pastedClean \<noteq> []"
    by (simp add: rawText_pastedClean rawClean_def js_def)
  have c: "uuidCount pastedClean = 20"
    by (simp add: pastedClean_def handleTextChange_def initialState_def INITIAL_ROW_COUNT_def)
  have v: "variables ?s =
      [\<lparr>var_id = sampleUuid 20, var_key = js ''FOO'', var_value = js ''bar''\<rparr>,
       \<lparr>var_id = sampleUuid 21, var_key = js ''BAZ'', var_value = js ''qux''\<rparr>]
      @ paddingRows sampleUuid 20 (Suc (Suc 0))"
    using ne by (simp add: rawTextEffect_def variables_parseAndPopulate rawText_pastedClean
        clean_entries buildVars_split entryRows_def c)
  have e: "rowErrors ?s = Map.empty"
    using ne by (simp add: rawTextEffect_def pastedClean_def handleTextChange_def initialState_def)
  have t: "trim (js ''FOO'') \<noteq> []" "trim (js ''BAZ'') \<noteq> []"
    by (simp_all add: trim_def js_def isWhiteSpace_def)
  have u: "sampleUuid 21 \<noteq> sampleUuid 20"
    using inj_sampleUuid by (simp add: inj_eq)
  have o: "getOutputText ?s = js ''FOO=bar'' @ [0x0A] @ js ''BAZ=qux''"
    unfolding getOutputText_rows[OF r] by (simp add: v e t filter_paddingRows filter_paddingRows_key) (simp add: js_def)
  have v': "variables ?s' = variables ?s"
    by (simp add: handleVariableChange_variables v setField_def paddingRows_def createEmptyVariable_def u)
      (simp add: sampleUuid_def)
  have e': "rowErrors ?s' = [sampleUuid 20 \<mapsto> js ''Error in '' @ sampleUuid 20]"
    using t by (simp add: handleVariableChange_def Let_def e KEY_REGEX_test_def keyChar_def js_def)
  have o': "getOutputText ?s' = js ''BAZ=qux''"
    unfolding getOutputText_rows[OF r'] by (simp add: v' v e' t u filter_paddingRows filter_paddingRows_key) (simp add: js_def)
  from r r' o o' show ?thesis by blast
qed

subsection \<open>C3: the last definition of a key wins\<close>

text \<open>
  Claim C3. When line \<open>i\<close> of the pasted text yields the pair \<open>(k, v)\<close> and no later
  line yields the key \<open>k\<close> (earlier lines may), the rows made by \<open>parseAndPopulate\<close>
  hold exactly one row with key \<open>k\<close>, and its value is \<open>v\<close>: one row per key, with
  the value of its last definition.
\<close>

theorem parse_last_definition_wins:
  assumes i: "i < length (split_newline (rawText s))"
    and line: "fst (lineCallback (split_newline (rawText s) ! i) i ([], []))
                 = [\<lparr>item_key = k, item_value = v, item_line = i + 1\<rparr>]"
    and later: "\<forall>j. i < j \<and> j < length (split_newline (rawText s)) \<longrightarrow>
                  k \<notin> item_key ` set (fst (lineCallback (split_newline (rawText s) ! j) j ([], [])))"
  shows "\<exists>r. filter (\<lambda>r. var_key r = k) (variables (parseAndPopulate uuid s)) = [r]
               \<and> var_value r = v"
proof -
  let ?it = "\<lparr>item_key = k, item_value = v, item_line = i + 1\<rparr>"
  have m: "?it \<in> set (lineItems (split_newline (rawText s) ! i) i)"
    using line by (simp add: lineItems_def)
  have l: "\<forall>j. i < j \<and> j < length (split_newline (rawText s)) \<longrightarrow>
                  item_key ?it \<notin> item_key ` set (lineItems (split_newline (rawText s) ! j) j)"
    using later by (simp add: lineItems_def)
  from row_for_last_definition[OF i m l, of uuid] show ?thesis
    by auto
qed

theorem parse_last_definition_wins_witness:
  "7 < length (split_newline (rawText pastedSample))
   \<and> fst (lineCallback (split_newline (rawText pastedSample) ! 7) 7 ([], []))
       = [\<lparr>item_key = js ''A'', item_value = js ''2'', item_line = 7 + 1\<rparr>]
   \<and> length (split_newline (rawText pastedSample)) = 9
   \<and> js ''A'' \<notin> item_key ` set (fst (lineCallback (split_newline (rawText pastedSample) ! 8) 8 ([], [])))
   \<and> (\<exists>r. filter (\<lambda>r. var_key r = js ''A'') (variables (parseAndPopulate sampleUuid pastedSample)) = [r]
          \<and> var_value r = js ''2'')"
proof -
  have h1: "7 < length (split_newline (rawText pastedSample))"
    by (simp add: rawText_pastedSample sample_length)
  have h2: "fst (lineCallback (split_newline (rawText pastedSample) ! 7) 7 ([], []))
       = [\<lparr>item_key = js ''A'', item_value = js ''2'', item_line = 7 + 1\<rparr>]"
    by (simp add: rawText_pastedSample sample_nth sample_callbacks)
  have h3: "\<forall>j. 7 < j \<and> j < length (split_newline (rawText pastedSample)) \<longrightarrow>
          js ''A'' \<notin> item_key ` set (fst (lineCallback (split_newline (rawText pastedSample) ! j) j ([], [])))"
    by (simp add: rawText_pastedSample sample_length sample_line_keys sample_key_diff)
  have l: "length (split_newline (rawText pastedSample)) = 9"
    by (simp add: rawText_pastedSample sample_length)
  have k: "js ''A'' \<notin> item_key ` set (fst (lineCallback (split_newline (rawText pastedSample) ! 8) 8 ([], [])))"
    by (simp add: rawText_pastedSample sample_line_keys sample_key_diff)
  from parse_last_definition_wins[OF h1 h2 h3, of sampleUuid] h1 h2 l k show ?thesis
    by blast
qed

subsection \<open>C4: the number of rows\<close>

text \<open>
  Claim C4. With \<open>N\<close> the number of distinct parsed keys, \<open>parseAndPopulate\<close> makes
  \<open>max 20 N\<close> rows: the first \<open>N\<close> carry the deduplicated entries (one per key), the
  rest are \<open>20 - N\<close> empty rows with newly generated ids, none when \<open>N\<close> is 20 or more.
\<close>

theorem parse_row_count:
  fixes s :: EditorState and uuid :: "nat \<Rightarrow> jsstring"
  defines "items \<equiv> fst (parsedLines (rawText s))"
  defines "N \<equiv> card (item_key ` set (fst (parsedLines (rawText s))))"
  defines "rows \<equiv> variables (parseAndPopulate uuid s)"
  shows "length rows = max 20 N
         \<and> map rowPair (take N rows) = Object_entries (deduped items)
         \<and> distinct (map var_key (take N rows))
         \<and> set (map var_key (take N rows)) = item_key ` set items
         \<and> drop N rows = map (\<lambda>i. createEmptyVariable (uuid (uuidCount s + i))) [N..<max 20 N]
         \<and> length (drop N rows) = 20 - N"
proof -
  let ?es = "Object_entries (deduped items)"
  have N: "length ?es = N"
    by (simp add: N_def items_def length_entries)
  have rows: "rows = entryRows uuid (uuidCount s) ?es @ paddingRows uuid (uuidCount s) N"
    by (simp add: rows_def items_def variables_parseAndPopulate buildVars_split N[unfolded items_def])
  have tk: "take N rows = entryRows uuid (uuidCount s) ?es"
    by (simp add: rows N)
  have dr: "drop N rows = paddingRows uuid (uuidCount s) N"
    by (simp add: rows N)
  have p: "map rowPair (take N rows) = ?es"
    by (simp add: tk map_rowPair_entryRows)
  have "map var_key (take N rows) = map fst (map rowPair (take N rows))"
    by (simp add: rowPair_def comp_def)
  then have keys: "map var_key (take N rows) = map fst ?es"
    by (simp only: p)
  have a: "length rows = max 20 N"
    by (simp add: rows N INITIAL_ROW_COUNT_def)
  have c: "distinct (map var_key (take N rows))"
    by (simp only: keys distinct_keys_entries)
  have d: "set (map var_key (take N rows)) = item_key ` set items"
    by (simp only: keys keys_entries)
  have e: "drop N rows = map (\<lambda>i. createEmptyVariable (uuid (uuidCount s + i))) [N..<max 20 N]"
    by (simp add: dr paddingRows_def INITIAL_ROW_COUNT_def)
  have f: "length (drop N rows) = 20 - N"
    by (simp add: dr INITIAL_ROW_COUNT_def)
  from a p c d e f show ?thesis by blast
qed

theorem parse_row_count_witness:
  "length (variables (parseAndPopulate sampleUuid pastedSample)) = 20
   \<and> map rowPair (take 5 (variables (parseAndPopulate sampleUuid pastedSample))) =
       [(js ''2'', js ''c''), (js ''10'', js ''b''), (js ''A'', js ''2''),
        (js ''FOO'', js ''bar baz''), (js ''Z'', js ''9'')]
   \<and> length (drop 5 (variables (parseAndPopulate sampleUuid pastedSample))) = 15"
proof -
  have "card (item_key ` set (fst (parsedLines rawSample)))
          = length (Object_entries (deduped (fst (parsedLines rawSample))))"
    by (simp only: length_entries)
  then have N: "card (item_key ` set (fst (parsedLines (rawText pastedSample)))) = 5"
    by (simp add: sample_entries rawText_pastedSample)
  from parse_row_count[of sampleUuid pastedSample] show ?thesis
    unfolding N by (simp add: rawText_pastedSample sample_entries)
qed

subsection \<open>C5: a well-formed line becomes a row\<close>

text \<open>
  Claim C5. When line \<open>i\<close> is \<open>K=V\<close> with \<open>K\<close> non-empty and made of characters of
  \<^verbatim>\<open>[A-Za-z0-9_]\<close> only, and no other line yields the key \<open>K\<close>, the line yields the
  pair of \<open>K\<close> and the trimmed \<open>V\<close> (the text after the first \<^verbatim>\<open>=\<close>, possibly empty),
  and the rows hold exactly one row with key \<open>K\<close>, whose value is the trimmed \<open>V\<close>.
\<close>

theorem parse_valid_line_row:
  assumes i: "i < length (split_newline (rawText s))"
    and line: "split_newline (rawText s) ! i = K @ js ''='' @ V"
    and K: "K \<noteq> []" and kc: "\<forall>c \<in> set K. keyChar c"
    and other: "\<forall>j. j < length (split_newline (rawText s)) \<and> j \<noteq> i \<longrightarrow>
                  K \<notin> item_key ` set (fst (lineCallback (split_newline (rawText s) ! j) j ([], [])))"
  shows "lineCallback (split_newline (rawText s) ! i) i ([], []) =
           ([\<lparr>item_key = K, item_value = trim V, item_line = i + 1\<rparr>], [])
         \<and> (\<exists>r. filter (\<lambda>r. var_key r = K) (variables (parseAndPopulate uuid s)) = [r]
               \<and> var_value r = trim V)"
proof -
  let ?it = "\<lparr>item_key = K, item_value = trim V, item_line = i + 1\<rparr>"
  have c: "lineCallback (split_newline (rawText s) ! i) i ([], []) = ([?it], [])"
    unfolding line using K kc by (rule lineCallback_key_line)
  then have m: "?it \<in> set (lineItems (split_newline (rawText s) ! i) i)"
    by (simp add: lineItems_def)
  have later: "\<forall>j. i < j \<and> j < length (split_newline (rawText s)) \<longrightarrow>
                  item_key ?it \<notin> item_key ` set (lineItems (split_newline (rawText s) ! j) j)"
    using other by (simp add: lineItems_def)
  from row_for_last_definition[OF i m later, of uuid] c show ?thesis
    by auto
qed

theorem parse_valid_line_row_witness:
  "4 < length (split_newline (rawText pastedSample))
   \<and> split_newline (rawText pastedSample) ! 4 = js ''FOO'' @ js ''='' @ js '' bar baz ''
   \<and> js ''FOO'' \<noteq> [] \<and> list_all keyChar (js ''FOO'')
   \<and> length (split_newline (rawText pastedSample)) = 9
   \<and> list_all
        (\<lambda>j. js ''FOO'' \<notin> item_key ` set (fst (lineCallback (split_newline (rawText pastedSample) ! j) j ([], []))))
        [0, 1, 2, 3, 5, 6, 7, 8]
   \<and> trim (js '' bar baz '') = js ''bar baz''
   \<and> (\<exists>r. filter (\<lambda>r. var_key r = js ''FOO'') (variables (parseAndPopulate sampleUuid pastedSample)) = [r]
          \<and> var_value r = js ''bar baz'')"
proof -
  have h1: "4 < length (split_newline (rawText pastedSample))"
    by (simp add: rawText_pastedSample sample_length)
  have h2: "split_newline (rawText pastedSample) ! 4 = js ''FOO'' @ js ''='' @ js '' bar baz ''"
    by (simp add: rawText_pastedSample sample_nth) (simp add: js_def)
  have h3: "js ''FOO'' \<noteq> []" by simp
  have h4: "\<forall>c \<in> set (js ''FOO''). keyChar c" by (simp add: js_def keyChar_def)
  have h5: "\<forall>j. j < length (split_newline (rawText pastedSample)) \<and> j \<noteq> 4 \<longrightarrow>
          js ''FOO'' \<notin> item_key ` set (fst (lineCallback (split_newline (rawText pastedSample) ! j) j ([], [])))"
    by (simp add: rawText_pastedSample sample_length sample_line_keys sample_key_diff sample_key_diff[symmetric])
  have t: "trim (js '' bar baz '') = js ''bar baz''"
    by (simp add: trim_def js_def isWhiteSpace_def)
  have l: "length (split_newline (rawText pastedSample)) = 9"
    by (simp add: rawText_pastedSample sample_length)
  have h4': "list_all keyChar (js ''FOO'')"
    using h4 by (simp add: list_all_iff)
  have h5': "list_all
        (\<lambda>j. js ''FOO'' \<notin> item_key ` set (fst (lineCallback (split_newline (rawText pastedSample) ! j) j ([], []))))
        [0, 1, 2, 3, 5, 6, 7, 8]"
    using h5 by (simp add: l)
  from parse_valid_line_row[OF h1 h2 h3 h4 h5, of sampleUuid] t
  have r: "\<exists>r. filter (\<lambda>r. var_key r = js ''FOO'') (variables (parseAndPopulate sampleUuid pastedSample)) = [r]
          \<and> var_value r = js ''bar baz''"
    by simp
  from h1 h2 h3 h4' l h5' t r show ?thesis by blast
qed

subsection \<open>C6: lines that yield no pair\<close>

text \<open>
  Claim C6. Let line \<open>i\<close> (counted from 0) be neither blank nor a comment. When it has no
  \<^verbatim>\<open>=\<close>, the loop adds no item for it and records
  \<^verbatim>\<open>Warning: Line <i+1> does not contain '='. Input: "<trimmed line>". Skipping.\<close>;
  when it has one but the text before the first \<^verbatim>\<open>=\<close> trims to the empty string, the
  loop adds no item for it and records
  \<^verbatim>\<open>Warning: Empty key on line <i+1>. Input: "<trimmed line>". Skipping.\<close>
  In both cases no parsed item carries that line number, the warning is among the
  collected warnings, and the error banner is the collected warnings joined by newlines.
\<close>

theorem parse_malformed_line_warning:
  assumes i: "i < length (split_newline (rawText s))"
    and t: "trim (split_newline (rawText s) ! i) \<noteq> []"
    and h: "\<not> startsWith (trim (split_newline (rawText s) ! i)) (js ''#'')"
  shows "(0x3D \<notin> set (split_newline (rawText s) ! i) \<longrightarrow>
            lineCallback (split_newline (rawText s) ! i) i ([], [])
              = ([], [noEqualsWarning (i + 1) (trim (split_newline (rawText s) ! i))])
            \<and> noEqualsWarning (i + 1) (trim (split_newline (rawText s) ! i)) \<in> set (parseWarnings (rawText s))
            \<and> (\<forall>it \<in> set (fst (parsedLines (rawText s))). item_line it \<noteq> i + 1)
            \<and> error (parseAndPopulate uuid s) = Some (join (parseWarnings (rawText s)) (js [CHR 0x0A])))
       \<and> (0x3D \<in> set (split_newline (rawText s) ! i)
            \<and> trim (takeWhile (\<lambda>c. c \<noteq> 0x3D) (trim (split_newline (rawText s) ! i))) = [] \<longrightarrow>
            lineCallback (split_newline (rawText s) ! i) i ([], [])
              = ([], [emptyKeyWarning (i + 1) (trim (split_newline (rawText s) ! i))])
            \<and> emptyKeyWarning (i + 1) (trim (split_newline (rawText s) ! i)) \<in> set (parseWarnings (rawText s))
            \<and> (\<forall>it \<in> set (fst (parsedLines (rawText s))). item_line it \<noteq> i + 1)
            \<and> error (parseAndPopulate uuid s) = Some (join (parseWarnings (rawText s)) (js [CHR 0x0A])))"
proof -
  let ?line = "split_newline (rawText s) ! i"
  have a: "0x3D \<notin> set ?line \<longrightarrow>
      lineCallback ?line i ([], []) = ([], [noEqualsWarning (i + 1) (trim ?line)])"
    using lineCallback_no_equals[OF t h, of i] by blast
  have "0x3D \<in> set ?line \<longrightarrow> 0x3D \<in> set (trim ?line)"
    using eq_not_ws by (simp add: in_set_trim)
  then have b: "0x3D \<in> set ?line \<and> trim (takeWhile (\<lambda>c. c \<noteq> 0x3D) (trim ?line)) = [] \<longrightarrow>
      lineCallback ?line i ([], []) = ([], [emptyKeyWarning (i + 1) (trim ?line)])"
    using lineCallback_empty_key[OF t h, of i] by blast
  from a b skipped_line_effect[OF i, of _ uuid] show ?thesis by blast
qed

theorem parse_malformed_line_warning_witness:
  \<open>0 < length (split_newline (rawText pastedSample))
   \<and> trim (split_newline (rawText pastedSample) ! 0) = js ''onlykey''
   \<and> \<not> startsWith (js ''onlykey'') (js ''#'')
   \<and> 0x3D \<notin> set (split_newline (rawText pastedSample) ! 0)
   \<and> js ''Warning: Line 1 does not contain '='. Input: "onlykey". Skipping.''
        \<in> set (parseWarnings (rawText pastedSample))
   \<and> 1 \<notin> item_line ` set (fst (parsedLines (rawText pastedSample)))
   \<and> Suc 0 < length (split_newline (rawText pastedSample))
   \<and> trim (split_newline (rawText pastedSample) ! Suc 0) = js ''=v''
   \<and> \<not> startsWith (js ''=v'') (js ''#'')
   \<and> 0x3D \<in> set (split_newline (rawText pastedSample) ! Suc 0)
   \<and> trim (takeWhile (\<lambda>c. c \<noteq> 0x3D) (js ''=v'')) = []
   \<and> js ''Warning: Empty key on line 2. Input: "=v". Skipping.''
        \<in> set (parseWarnings (rawText pastedSample))
   \<and> 2 \<notin> item_line ` set (fst (parsedLines (rawText pastedSample)))\<close>
proof -
  have l0: "0 < length (split_newline (rawText pastedSample))"
    and l1: "Suc 0 < length (split_newline (rawText pastedSample))"
    by (simp_all add: rawText_pastedSample sample_length)
  have t0: "trim (split_newline (rawText pastedSample) ! 0) = js ''onlykey''"
    and t1: "trim (split_newline (rawText pastedSample) ! Suc 0) = js ''=v''"
    by (simp_all add: rawText_pastedSample sample_nth) (simp_all add: trim_def js_def isWhiteSpace_def)
  have n0: "trim (split_newline (rawText pastedSample) ! 0) \<noteq> []"
    and n1: "trim (split_newline (rawText pastedSample) ! Suc 0) \<noteq> []"
    by (simp_all add: t0 t1)
  have c0: "\<not> startsWith (js ''onlykey'') (js ''#'')"
    and c1: "\<not> startsWith (js ''=v'') (js ''#'')"
    by (simp_all add: startsWith_def js_def)
  have e0: "0x3D \<notin> set (split_newline (rawText pastedSample) ! 0)"
    and e1: "0x3D \<in> set (split_newline (rawText pastedSample) ! Suc 0)"
    by (simp_all add: rawText_pastedSample sample_nth) (simp_all add: js_def)
  have k1: "trim (takeWhile (\<lambda>c. c \<noteq> 0x3D) (js ''=v'')) = []"
    by (simp add: js_def)
  note w0 = parse_malformed_line_warning[OF l0 n0, unfolded t0, OF c0, of sampleUuid]
  note w1 = parse_malformed_line_warning[OF l1 n1, unfolded t1, OF c1, of sampleUuid]
  from w0 e0 have r0: "js ''Warning: Line 1 does not contain '='. Input: \"onlykey\". Skipping.''
        \<in> set (parseWarnings (rawText pastedSample))
     \<and> 1 \<notin> item_line ` set (fst (parsedLines (rawText pastedSample)))"
    unfolding sample_warning_text by auto
  have two: "Suc (Suc 0) = 2" by simp
  from w1 e1 k1 have r1: "js ''Warning: Empty key on line 2. Input: \"=v\". Skipping.''
        \<in> set (parseWarnings (rawText pastedSample))
     \<and> 2 \<notin> item_line ` set (fst (parsedLines (rawText pastedSample)))"
    unfolding sample_warning_text by (auto simp add: two)
  from l0 l1 t0 t1 c0 c1 e0 e1 k1 r0 r1 show ?thesis by blast
qed

subsection \<open>C7: the banners after a parse\<close>

text \<open>
  Claim C7. After \<open>parseAndPopulate\<close>: when warnings were collected, \<open>error\<close> is the
  warnings joined by newlines and \<open>status\<close> is unset; when none were, \<open>error\<close> is
  cleared and \<open>status\<close> is "Parsed successfully!".
\<close>

theorem parseAndPopulate_banners:
  "(parseWarnings (rawText s) \<noteq> [] \<longrightarrow>
      error (parseAndPopulate uuid s) = Some (join (parseWarnings (rawText s)) (js [CHR 0x0A]))
      \<and> status (parseAndPopulate uuid s) = None)
   \<and> (parseWarnings (rawText s) = [] \<longrightarrow>
      error (parseAndPopulate uuid s) = None
      \<and> status (parseAndPopulate uuid s) = Some (js ''Parsed successfully!''))"
  by (simp add: parseAndPopulate_def Let_def)

theorem parseAndPopulate_banners_witness:
  "parseWarnings (rawText pastedSample) \<noteq> []
   \<and> error (parseAndPopulate sampleUuid pastedSample)
       = Some (noEqualsWarning 1 (js ''onlykey'') @ [0x0A] @ emptyKeyWarning 2 (js ''=v''))
   \<and> status (parseAndPopulate sampleUuid pastedSample) = None
   \<and> parseWarnings (rawText pastedClean) = []
   \<and> error (parseAndPopulate sampleUuid pastedClean) = None
   \<and> status (parseAndPopulate sampleUuid pastedClean) = Some (js ''Parsed successfully!'')"
proof -
  have h1: "parseWarnings (rawText pastedSample) \<noteq> []"
    by (simp add: rawText_pastedSample sample_warnings)
  have h2: "parseWarnings (rawText pastedClean) = []"
    by (simp add: rawText_pastedClean clean_warnings)
  have j: "join (parseWarnings (rawText pastedSample)) (js [CHR 0x0A])
      = noEqualsWarning 1 (js ''onlykey'') @ [0x0A] @ emptyKeyWarning 2 (js ''=v'')"
    by (simp add: rawText_pastedSample sample_warnings js_def)
  from parseAndPopulate_banners[of pastedSample sampleUuid] parseAndPopulate_banners[of pastedClean sampleUuid]
    h1 h2 j show ?thesis by simp
qed

subsection \<open>C8: clearAll\<close>

text \<open>
  Claim C8. From any state, \<open>clearAll\<close> gives the initial configuration: 20 empty rows,
  no row errors, no error banner, empty raw text, no status; it is the mounted state
  of a generator that starts where this one has arrived. The empty raw text starts no
  re-parse. From a state the component can be in, and with a generator that never repeats
  an identifier, the 20 ids are new: distinct, and none of them the id of a row before.
\<close>

theorem clearAll_restores_initial:
  "clearAll uuid s = (initialState (\<lambda>i. uuid (uuidCount s + i)))\<lparr>uuidCount := uuidCount s + 20\<rparr>
   \<and> variables (clearAll uuid s) = map (\<lambda>i. createEmptyVariable (uuid (uuidCount s + i))) [0..<20]
   \<and> length (variables (clearAll uuid s)) = 20
   \<and> (\<forall>r \<in> set (variables (clearAll uuid s)). var_key r = [] \<and> var_value r = [])
   \<and> rowErrors (clearAll uuid s) = Map.empty
   \<and> error (clearAll uuid s) = None
   \<and> rawText (clearAll uuid s) = []
   \<and> status (clearAll uuid s) = None
   \<and> rawTextEffect uuid (clearAll uuid s) = clearAll uuid s
   \<and> (reachable uuid s \<and> inj uuid \<longrightarrow>
        distinct (map var_id (variables (clearAll uuid s)))
        \<and> set (map var_id (variables (clearAll uuid s))) \<inter> set (map var_id (variables s)) = {})"
proof -
  have a: "clearAll uuid s = (initialState (\<lambda>i. uuid (uuidCount s + i)))\<lparr>uuidCount := uuidCount s + 20\<rparr>"
    by (simp add: clearAll_def initialState_def emptyRows_def INITIAL_ROW_COUNT_def)
  have b: "variables (clearAll uuid s) = map (\<lambda>i. createEmptyVariable (uuid (uuidCount s + i))) [0..<20]"
    by (simp add: clearAll_def emptyRows_def INITIAL_ROW_COUNT_def)
  have c: "length (variables (clearAll uuid s)) = 20"
    by (simp add: b)
  have d: "\<forall>r \<in> set (variables (clearAll uuid s)). var_key r = [] \<and> var_value r = []"
    by (auto simp add: b createEmptyVariable_def)
  have e: "rowErrors (clearAll uuid s) = Map.empty" "error (clearAll uuid s) = None"
    "rawText (clearAll uuid s) = []" "status (clearAll uuid s) = None"
    by (simp_all add: clearAll_def)
  have f: "rawTextEffect uuid (clearAll uuid s) = clearAll uuid s"
    by (simp add: rawTextEffect_def e)
  from a b c d e f clearAll_fresh_ids[of uuid s] show ?thesis by blast
qed

theorem clearAll_restores_initial_witness:
  "reachable sampleUuid (rawTextEffect sampleUuid pastedSample) \<and> inj sampleUuid
   \<and> length (variables (clearAll sampleUuid (rawTextEffect sampleUuid pastedSample))) = 20
   \<and> var_key (variables (clearAll sampleUuid (rawTextEffect sampleUuid pastedSample)) ! 0) = []
   \<and> rowErrors (clearAll sampleUuid (rawTextEffect sampleUuid pastedSample)) = Map.empty
   \<and> error (clearAll sampleUuid (rawTextEffect sampleUuid pastedSample)) = None
   \<and> rawText (clearAll sampleUuid (rawTextEffect sampleUuid pastedSample)) = []
   \<and> status (clearAll sampleUuid (rawTextEffect sampleUuid pastedSample)) = None
   \<and> distinct (map var_id (variables (clearAll sampleUuid (rawTextEffect sampleUuid pastedSample))))
   \<and> set (map var_id (variables (clearAll sampleUuid (rawTextEffect sampleUuid pastedSample))))
       \<inter> set (map var_id (variables (rawTextEffect sampleUuid pastedSample))) = {}"
proof -
  let ?s = "rawTextEffect sampleUuid pastedSample"
  have r: "reachable sampleUuid ?s"
    using reachable_pastedSample by (rule reachable.reparse)
  note t = clearAll_restores_initial[of sampleUuid ?s]
  from t have l: "length (variables (clearAll sampleUuid ?s)) = 20" by blast
  then have "variables (clearAll sampleUuid ?s) ! 0 \<in> set (variables (clearAll sampleUuid ?s))"
    by (simp add: nth_mem)
  with t have k: "var_key (variables (clearAll sampleUuid ?s) ! 0) = []" by blast
  from t r inj_sampleUuid l k show ?thesis by blast
qed

subsection \<open>C9: clearText\<close>

text \<open>
  Claim C9. \<open>clearText\<close> sets \<open>rawText\<close> to the empty string and changes nothing else:
  \<open>variables\<close>, \<open>rowErrors\<close>, \<open>error\<close> and \<open>status\<close> are as before. The effect that
  follows finds the raw text empty and does not parse, so the rows are not replaced.
\<close>

theorem clearText_only_rawText:
  "clearText s = s\<lparr>rawText := []\<rparr>
   \<and> rawText (clearText s) = []
   \<and> variables (clearText s) = variables s
   \<and> rowErrors (clearText s) = rowErrors s
   \<and> error (clearText s) = error s
   \<and> status (clearText s) = status s
   \<and> rawTextEffect uuid (clearText s) = clearText s"
  by (simp add: clearText_def rawTextEffect_def)

theorem clearText_only_rawText_witness:
  "rawText pastedSample \<noteq> []
   \<and> rawText (clearText pastedSample) = []
   \<and> variables (clearText pastedSample) = variables pastedSample
   \<and> rawTextEffect sampleUuid (clearText pastedSample) = clearText pastedSample
   \<and> variables (rawTextEffect sampleUuid (clearText pastedSample)) = variables pastedSample"
proof -
  have n: "rawText pastedSample \<noteq> []"
    by (simp add: rawText_pastedSample rawSample_def js_def)
  note t = clearText_only_rawText[of pastedSample sampleUuid]
  from t have a: "rawText (clearText pastedSample) = []" by blast
  from t have b: "variables (clearText pastedSample) = variables pastedSample" by blast
  from t have c: "rawTextEffect sampleUuid (clearText pastedSample) = clearText pastedSample" by blast
  from n a b c show ?thesis by simp
qed

subsection \<open>C10: no warning for a duplicate key\<close>

text \<open>
  Claim C10. The loop under "Detect duplicates" adds nothing, whatever \<open>keyCounts\<close>
  holds (and it holds nothing: it is never written), so the warnings tested by
  \<open>parseAndPopulate\<close> are those of the line loop: each is a warning for a line without
  \<^verbatim>\<open>=\<close> or for an empty key, and none starts with "Duplicate key", also when a key is
  defined twice.
\<close>

theorem parse_no_duplicate_warning:
  "duplicateWarnings keyCounts = []
   \<and> parseWarnings raw = snd (parsedLines raw)
   \<and> (\<forall>w \<in> set (parseWarnings raw).
        (\<exists>n t. w = noEqualsWarning n t \<or> w = emptyKeyWarning n t)
        \<and> \<not> startsWith w (js ''Duplicate key''))"
proof -
  have a: "duplicateWarnings keyCounts = []"
    by (simp add: duplicateWarnings_def Array_isArray_number_def)
  have b: "parseWarnings raw = snd (parsedLines raw)"
    by (simp add: parseWarnings_def duplicateWarnings_def Object_entries_def)
  have c: "\<forall>w \<in> set (parseWarnings raw).
        (\<exists>n t. w = noEqualsWarning n t \<or> w = emptyKeyWarning n t)
        \<and> \<not> startsWith w (js ''Duplicate key'')"
  proof
    fix w assume "w \<in> set (parseWarnings raw)"
    then obtain j where "w \<in> set (lineWarnings (split_newline raw ! j) j)"
      by (auto simp add: parseWarnings_eq)
    then have "w = noEqualsWarning (j + 1) (trim (split_newline raw ! j))
             \<or> w = emptyKeyWarning (j + 1) (trim (split_newline raw ! j))"
      using lineWarnings_cases[of "split_newline raw ! j" j] by auto
    then show "(\<exists>n t. w = noEqualsWarning n t \<or> w = emptyKeyWarning n t)
        \<and> \<not> startsWith w (js ''Duplicate key'')"
      using noEqualsWarning_not_duplicate emptyKeyWarning_not_duplicate by blast
  qed
  from a b c show ?thesis by blast
qed

theorem parse_no_duplicate_warning_witness:
  "js ''A'' \<in> item_key ` set (fst (lineCallback (split_newline rawSample ! 3) 3 ([], [])))
   \<and> js ''A'' \<in> item_key ` set (fst (lineCallback (split_newline rawSample ! 7) 7 ([], [])))
   \<and> parseWarnings rawSample = [noEqualsWarning 1 (js ''onlykey''), emptyKeyWarning 2 (js ''=v'')]
   \<and> noEqualsWarning 1 (js ''onlykey'') \<in> set (parseWarnings rawSample)
   \<and> \<not> startsWith (noEqualsWarning 1 (js ''onlykey'')) (js ''Duplicate key'')
   \<and> emptyKeyWarning 2 (js ''=v'') \<in> set (parseWarnings rawSample)
   \<and> \<not> startsWith (emptyKeyWarning 2 (js ''=v'')) (js ''Duplicate key'')"
proof -
  have d: "js ''A'' \<in> item_key ` set (fst (lineCallback (split_newline rawSample ! 3) 3 ([], [])))"
    "js ''A'' \<in> item_key ` set (fst (lineCallback (split_newline rawSample ! 7) 7 ([], [])))"
    by (simp_all add: sample_line_keys)
  have m: "noEqualsWarning 1 (js ''onlykey'') \<in> set (parseWarnings rawSample)"
    "emptyKeyWarning 2 (js ''=v'') \<in> set (parseWarnings rawSample)"
    by (simp_all add: sample_warnings)
  from parse_no_duplicate_warning[of "[]" rawSample] m
  have "\<not> startsWith (noEqualsWarning 1 (js ''onlykey'')) (js ''Duplicate key'')"
    "\<not> startsWith (emptyKeyWarning 2 (js ''=v'')) (js ''Duplicate key'')"
    by blast+
  with d m sample_warnings show ?thesis by blast
qed


end
